theory Spec2Isabelle
  imports Complex_Main "HOL-Library.AList" "HOL-Library.Monad_Syntax"
    "HOL-Library.Char_ord" "HOL-Library.List_Lexorder" "HOL-Library.Product_Lexorder"
begin

section \<open>Python values and the texts Redis stores\<close>

text \<open>
  Times are seconds since the epoch. Python floats are idealised as exact rationals: none
  of the properties below depends on rounding.

  A metrics dictionary (\<open>Dict[str, Any]\<close>) is an association list from field names to
  values: ints, floats, strings and the \<open>value_counts\<close> dictionaries of the batch job.
  The strings that occur (identifiers, ISO timestamps) are taken to be no numeric literals.

  Redis keeps every hash field as a byte string. The model classifies such a text by how
  Python's \<open>int()\<close> and \<open>float()\<close> read it: the decimal text of an integer, the text of
  a float (which \<open>int()\<close> rejects, since it always carries a point or an exponent), or
  \<open>OtherText v\<close>, the text \<open>str(v)\<close> of a value that is neither.
\<close>

type_synonym time = rat

datatype pyval = PInt int | PFloat rat | PStr string | PDict "(string \<times> int) list"

datatype rtext = IntText int | FloatText rat | OtherText pyval

type_synonym pydict = "(string \<times> pyval) list"

fun py_str :: "pyval \<Rightarrow> rtext" where
  "py_str (PInt n) = IntText n"
| "py_str (PFloat q) = FloatText q"
| "py_str (PStr s) = OtherText (PStr s)"
| "py_str (PDict d) = OtherText (PDict d)"

text \<open>\<open>int(b)\<close> and \<open>float(b)\<close> on a byte string; \<open>None\<close> is the \<open>ValueError\<close>.\<close>

fun py_int :: "rtext \<Rightarrow> int option" where
  "py_int (IntText n) = Some n"
| "py_int (FloatText q) = None"
| "py_int (OtherText v) = None"

fun py_float :: "rtext \<Rightarrow> rat option" where
  "py_float (IntText n) = Some (of_int n)"
| "py_float (FloatText q) = Some q"
| "py_float (OtherText v) = None"

section \<open>The Redis server, as far as the cache uses it\<close>

text \<open>
  The cache touches two families of keys, \<open>prefix + video:<id>:metrics\<close> (hashes) and
  \<open>prefix + window:<id>\<close> (sorted sets). They differ at the first character after the
  prefix, so no key is ever used at both types and the model keeps one table for each.
  The order of the hash table stands for the order in which \<open>KEYS\<close> lists the keys, which
  Redis leaves unspecified. A key with an expiry is gone from the instant the expiry is
  reached. \<open>up = False\<close> is a server that cannot be reached: every command then raises.
\<close>

datatype redis_error = ConnectionError | ResponseError | DataError

record hentry =
  hfields :: "(string \<times> rtext) list"
  expire_at :: "time option"

record redis_server =
  up :: bool
  hashes :: "(string \<times> hentry) list"
  zsets :: "(string \<times> (string \<times> rat) list) list"

definition live :: "time \<Rightarrow> hentry \<Rightarrow> bool" where
  "live now e = (case expire_at e of None \<Rightarrow> True | Some t \<Rightarrow> now < t)"

definition hash_at :: "redis_server \<Rightarrow> time \<Rightarrow> string \<Rightarrow> hentry option" where
  "hash_at r now key =
     (case map_of (hashes r) key of
        None \<Rightarrow> None
      | Some e \<Rightarrow> if live now e then Some e else None)"

definition hgetall :: "redis_server \<Rightarrow> time \<Rightarrow> string \<Rightarrow> redis_error + (string \<times> rtext) list" where
  "hgetall r now key =
     (if \<not> up r then Inl ConnectionError
      else Inr (case hash_at r now key of None \<Rightarrow> [] | Some e \<Rightarrow> hfields e))"

text \<open>\<open>HSET key f1 v1 f2 v2 ...\<close>: fields are added to the hash or overwritten in it; the
  other fields and the expiry of a live hash stay.\<close>

definition hmset :: "redis_server \<Rightarrow> time \<Rightarrow> string \<Rightarrow> (string \<times> rtext) list \<Rightarrow> redis_server" where
  "hmset r now key mapping =
     (let old = (case hash_at r now key of
                   None \<Rightarrow> \<lparr>hfields = [], expire_at = None\<rparr>
                 | Some e \<Rightarrow> e)
      in r\<lparr>hashes :=
             AList.update key
               (old\<lparr>hfields := fold (\<lambda>(f, v). AList.update f v) mapping (hfields old)\<rparr>)
               (hashes r)\<rparr>)"

text \<open>\<open>EXPIRE key seconds\<close>: a timeout that is not positive deletes the key.\<close>

definition expire :: "redis_server \<Rightarrow> time \<Rightarrow> string \<Rightarrow> int \<Rightarrow> redis_server" where
  "expire r now key seconds =
     (case hash_at r now key of
        None \<Rightarrow> r
      | Some e \<Rightarrow>
          if seconds \<le> 0 then r\<lparr>hashes := AList.delete key (hashes r)\<rparr>
          else r\<lparr>hashes := AList.update key (e\<lparr>expire_at := Some (now + of_int seconds)\<rparr>) (hashes r)\<rparr>)"

text \<open>\<open>HINCRBY key field increment\<close>: an absent key or field counts as 0; a field that is
  not the text of a signed 64-bit integer, or a sum outside that range, is an error and
  changes nothing. A key created here has no expiry.\<close>

definition in_i64 :: "int \<Rightarrow> bool" where
  "in_i64 n = (- (2 ^ 63) \<le> n \<and> n < 2 ^ 63)"

definition hincrby :: "redis_server \<Rightarrow> time \<Rightarrow> string \<Rightarrow> string \<Rightarrow> int \<Rightarrow> redis_error + redis_server" where
  "hincrby r now key field increment =
     (let old = (case hash_at r now key of
                   None \<Rightarrow> \<lparr>hfields = [], expire_at = None\<rparr>
                 | Some e \<Rightarrow> e);
          cur = (case map_of (hfields old) field of
                   None \<Rightarrow> Some 0
                 | Some t \<Rightarrow> (case py_int t of
                                None \<Rightarrow> None
                              | Some n \<Rightarrow> if in_i64 n then Some n else None))
      in case cur of
           None \<Rightarrow> Inl ResponseError
         | Some n \<Rightarrow>
             if \<not> in_i64 increment \<or> \<not> in_i64 (n + increment) then Inl ResponseError
             else Inr (r\<lparr>hashes :=
                          AList.update key
                            (old\<lparr>hfields := AList.update field (IntText (n + increment)) (hfields old)\<rparr>)
                            (hashes r)\<rparr>))"

section \<open>RedisCache (src/storage/redis\_cache.py)\<close>

record redis_cache =
  redis :: redis_server
  prefix :: string
  default_ttl :: int

definition get_key :: "redis_cache \<Rightarrow> string \<Rightarrow> string" where
  "get_key c key = prefix c @ key"

definition metrics_key :: "redis_cache \<Rightarrow> string \<Rightarrow> string" where
  "metrics_key c video_id = get_key c (''video:'' @ video_id @ '':metrics'')"

text \<open>\<open>ttl or self.default_ttl\<close>: an omitted ttl and a ttl of 0 both select the default.\<close>

definition ttl_or_default :: "redis_cache \<Rightarrow> int option \<Rightarrow> int" where
  "ttl_or_default c ttl =
     (case ttl of None \<Rightarrow> default_ttl c | Some t \<Rightarrow> if t = 0 then default_ttl c else t)"

text \<open>\<open>set_video_metrics\<close>: the pipeline queues \<open>hmset\<close> and \<open>expire\<close> and runs both on
  \<open>execute\<close>. \<open>hmset\<close> refuses an empty mapping when it is queued (a \<open>DataError\<close>). Every
  exception is caught and answered with \<open>False\<close>. The ttl is taken to be one that
  \<open>EXPIRE\<close> accepts (any of at most 32 bits is).\<close>

definition set_video_metrics ::
  "redis_cache \<Rightarrow> time \<Rightarrow> string \<Rightarrow> pydict \<Rightarrow> int option \<Rightarrow> bool \<times> redis_cache" where
  "set_video_metrics c now video_id metrics ttl =
     (let key = metrics_key c video_id;
          metrics_str = map (\<lambda>(k, v). (k, py_str v)) metrics
      in if metrics_str = [] then (False, c)
         else if \<not> up (redis c) then (False, c)
         else (True,
               c\<lparr>redis := expire (hmset (redis c) now key metrics_str) now key (ttl_or_default c ttl)\<rparr>))"

text \<open>\<open>metrics.get(b'f', 0)\<close> followed by \<open>int(...)\<close> or \<open>float(...)\<close>.\<close>

definition get_int :: "(string \<times> rtext) list \<Rightarrow> string \<Rightarrow> int option" where
  "get_int metrics f = (case map_of metrics f of None \<Rightarrow> Some 0 | Some t \<Rightarrow> py_int t)"

definition get_float :: "(string \<times> rtext) list \<Rightarrow> string \<Rightarrow> rat option" where
  "get_float metrics f = (case map_of metrics f of None \<Rightarrow> Some 0 | Some t \<Rightarrow> py_float t)"

text \<open>\<open>get_video_metrics\<close>: \<open>None\<close> for an empty reply and for every exception (the server
  is down, or a stored text does not convert).\<close>

definition get_video_metrics :: "redis_cache \<Rightarrow> time \<Rightarrow> string \<Rightarrow> pydict option" where
  "get_video_metrics c now video_id =
     (case hgetall (redis c) now (metrics_key c video_id) of
        Inl e \<Rightarrow> None
      | Inr metrics \<Rightarrow>
          if metrics = [] then None
          else do {
            views \<leftarrow> get_int metrics ''views'';
            likes \<leftarrow> get_int metrics ''likes'';
            watch_time \<leftarrow> get_float metrics ''watch_time'';
            unique_users \<leftarrow> get_int metrics ''unique_users'';
            countries_reached \<leftarrow> get_int metrics ''countries_reached'';
            engagement_rate \<leftarrow> get_float metrics ''engagement_rate'';
            avg_watch_time \<leftarrow> get_float metrics ''avg_watch_time'';
            Some [(''views'', PInt views),
                  (''likes'', PInt likes),
                  (''watch_time'', PFloat watch_time),
                  (''unique_users'', PInt unique_users),
                  (''countries_reached'', PInt countries_reached),
                  (''engagement_rate'', PFloat engagement_rate),
                  (''avg_watch_time'', PFloat avg_watch_time)]
          })"

text \<open>\<open>increment_metrics\<close>: one \<open>hincrby\<close> per entry of the dictionary, run together on
  \<open>execute\<close>. Inside the transaction a failing command does not stop or undo the others;
  the client raises the first error afterwards, and the method answers \<open>False\<close>. For an
  empty dictionary nothing is queued: \<open>execute\<close> returns at once without contacting
  the server, and the method answers \<open>True\<close>.\<close>

fun hincrby_all :: "redis_server \<Rightarrow> time \<Rightarrow> string \<Rightarrow> (string \<times> int) list \<Rightarrow> bool \<times> redis_server" where
  "hincrby_all r now key [] = (True, r)"
| "hincrby_all r now key ((metric, v) # rest) =
     (case hincrby r now key metric v of
        Inl e \<Rightarrow> (False, snd (hincrby_all r now key rest))
      | Inr r' \<Rightarrow> hincrby_all r' now key rest)"

definition increment_metrics ::
  "redis_cache \<Rightarrow> time \<Rightarrow> string \<Rightarrow> (string \<times> int) list \<Rightarrow> bool \<times> redis_cache" where
  "increment_metrics c now video_id metrics =
     (if metrics = [] then (True, c)
      else if \<not> up (redis c) then (False, c)
      else case hincrby_all (redis c) now (metrics_key c video_id) metrics of
             (ok, r') \<Rightarrow> (ok, c\<lparr>redis := r'\<rparr>))"

text \<open>The field names that \<open>get_video_metrics\<close> reads, by the conversion it applies, and
  the dictionaries that are Metrics Records: exactly these seven keys, each with a value
  of its field's type.\<close>

definition int_fields :: "string list" where
  "int_fields = [''views'', ''likes'', ''unique_users'', ''countries_reached'']"

definition float_fields :: "string list" where
  "float_fields = [''watch_time'', ''engagement_rate'', ''avg_watch_time'']"

definition metric_fields :: "string list" where
  "metric_fields = [''views'', ''likes'', ''watch_time'', ''unique_users'',
     ''countries_reached'', ''engagement_rate'', ''avg_watch_time'']"

definition is_metrics_record :: "pydict \<Rightarrow> bool" where
  "is_metrics_record m =
     (distinct (map fst m) \<and> set (map fst m) = set metric_fields \<and>
      (\<forall>f \<in> set int_fields. case map_of m f of Some (PInt n) \<Rightarrow> True | _ \<Rightarrow> False) \<and>
      (\<forall>f \<in> set float_fields. case map_of m f of Some (PFloat q) \<Rightarrow> True | _ \<Rightarrow> False))"

subsection \<open>The processing window\<close>

text \<open>
  A sorted set holds each member once, with a score. \<open>ZADD\<close> adds a member or replaces its
  score, \<open>ZREMRANGEBYSCORE key -inf max\<close> removes every member whose score is at most
  \<open>max\<close> (the bound is inclusive) and drops a set left empty, and \<open>ZRANGE key 0 -1\<close> lists
  the members by ascending score, members of equal score in the order of their bytes.

  The member is \<open>json.dumps(event)\<close>. An event is modelled by its \<open>timestamp\<close> entry,
  if it has one, and by that text, if the event can be serialised (\<open>json.dumps\<close> raises a
  \<open>TypeError\<close> otherwise); \<open>json.loads\<close> gives the event back. \<open>ZADD\<close> takes an int or a
  float as the score and refuses every other value (an ISO date string, a dictionary).
\<close>

record event =
  timestamp :: "pyval option"
  json :: "string option"

definition zadd_score :: "pyval \<Rightarrow> rat option" where
  "zadd_score v = (case v of PInt n \<Rightarrow> Some (of_int n) | PFloat q \<Rightarrow> Some q | _ \<Rightarrow> None)"

definition zset_at :: "redis_server \<Rightarrow> string \<Rightarrow> (string \<times> rat) list" where
  "zset_at r key = (case map_of (zsets r) key of None \<Rightarrow> [] | Some z \<Rightarrow> z)"

definition zadd :: "redis_server \<Rightarrow> string \<Rightarrow> string \<Rightarrow> rat \<Rightarrow> redis_server" where
  "zadd r key member score =
     r\<lparr>zsets := AList.update key (AList.update member score (zset_at r key)) (zsets r)\<rparr>"

definition zremrangebyscore_upto :: "redis_server \<Rightarrow> string \<Rightarrow> rat \<Rightarrow> redis_server" where
  "zremrangebyscore_upto r key max_score =
     (let z = filter (\<lambda>(member, score). \<not> score \<le> max_score) (zset_at r key)
      in if z = [] then r\<lparr>zsets := AList.delete key (zsets r)\<rparr>
         else r\<lparr>zsets := AList.update key z (zsets r)\<rparr>)"

definition zrange_all :: "redis_server \<Rightarrow> string \<Rightarrow> (string \<times> rat) list" where
  "zrange_all r key = sort_key (\<lambda>(member, score). (score, member)) (zset_at r key)"

definition window_key :: "redis_cache \<Rightarrow> string \<Rightarrow> string" where
  "window_key c video_id = get_key c (''window:'' @ video_id)"

text \<open>\<open>add_to_processing_window\<close>: \<open>now\<close> is the value of \<open>datetime.utcnow().timestamp()\<close>
  during the call. When \<open>json.dumps\<close> or \<open>zadd\<close> raises, the \<open>except\<close> clause answers
  \<open>False\<close> and the eviction is not reached.\<close>

definition add_to_processing_window ::
  "redis_cache \<Rightarrow> time \<Rightarrow> string \<Rightarrow> event \<Rightarrow> int \<Rightarrow> bool \<times> redis_cache" where
  "add_to_processing_window c now video_id ev window_size =
     (let key = window_key c video_id;
          ts = (case timestamp ev of None \<Rightarrow> PFloat now | Some t \<Rightarrow> t)
      in case json ev of
           None \<Rightarrow> (False, c)
         | Some member \<Rightarrow>
             if \<not> up (redis c) then (False, c)
             else case zadd_score ts of
                    None \<Rightarrow> (False, c)
                  | Some score \<Rightarrow>
                      let r1 = zadd (redis c) key member score;
                          min_timestamp = now - of_int window_size;
                          r2 = zremrangebyscore_upto r1 key min_timestamp
                      in (True, c\<lparr>redis := r2\<rparr>))"

definition get_window_events :: "redis_cache \<Rightarrow> string \<Rightarrow> string list" where
  "get_window_events c video_id =
     (if \<not> up (redis c) then []
      else map fst (zrange_all (redis c) (window_key c video_id)))"

text \<open>The reply to \<open>ZRANGE key 0 -1 WITHSCORES\<close>: the events that \<open>get_window_events\<close>
  returns, each with the timestamp it is stored under.\<close>

definition window_snapshot :: "redis_cache \<Rightarrow> string \<Rightarrow> (string \<times> rat) list" where
  "window_snapshot c video_id = zrange_all (redis c) (window_key c video_id)"

section \<open>MetricsService (src/serving/metrics\_service.py)\<close>

text \<open>
  A raised exception is a value. \<open>HTTPException\<close> is a subclass of \<open>Exception\<close>, so an
  \<open>except Exception\<close> clause catches it as well.

  The method \<open>get_video_metrics(video_id, start_time, end_time, table)\<close> that the service
  calls on its \<open>BigQueryHandler\<close> is not among the sources (the class of that name in
  pubsub\_consumer.py has no such method); it is a parameter of the model: it returns a
  metrics dictionary, \<open>None\<close>, or raises.
\<close>

datatype py_exception = HTTPException nat | Exception

type_synonym bigquery_handler =
  "string \<Rightarrow> time \<Rightarrow> time \<Rightarrow> string \<Rightarrow> py_exception + pydict option"

record metrics_service =
  cache :: redis_cache
  bigquery :: "bigquery_handler option"
  config_events_table :: "string option"

text \<open>\<open>if metrics:\<close> on an optional dictionary.\<close>

fun truthy :: "pydict option \<Rightarrow> bool" where
  "truthy None = False"
| "truthy (Some d) = (d \<noteq> [])"

text \<open>The body of the \<open>try\<close> block of \<open>MetricsService.get_video_metrics\<close>; the answer of
  \<open>set_video_metrics\<close> is not looked at.\<close>

definition service_get_video_metrics_try ::
  "metrics_service \<Rightarrow> time \<Rightarrow> string \<Rightarrow> (py_exception + pydict) \<times> redis_cache" where
  "service_get_video_metrics_try s now video_id =
     (let metrics = get_video_metrics (cache s) now video_id
      in if truthy metrics then (Inr (the metrics), cache s)
         else case bigquery s of
                None \<Rightarrow> (Inl (HTTPException 404), cache s)
              | Some bq \<Rightarrow>
                  let end_time = now;
                      start_time = end_time - 5 * 60;
                      table = (case config_events_table s of None \<Rightarrow> ''raw_events'' | Some t \<Rightarrow> t)
                  in case bq video_id start_time end_time table of
                       Inl e \<Rightarrow> (Inl e, cache s)
                     | Inr metrics \<Rightarrow>
                         if truthy metrics
                         then (Inr (the metrics),
                               snd (set_video_metrics (cache s) now video_id (the metrics) None))
                         else (Inl (HTTPException 404), cache s))"

text \<open>\<open>except Exception as e: ... raise HTTPException(status_code=500, ...)\<close>.\<close>

definition service_get_video_metrics ::
  "metrics_service \<Rightarrow> time \<Rightarrow> string \<Rightarrow> (py_exception + pydict) \<times> redis_cache" where
  "service_get_video_metrics s now video_id =
     (case service_get_video_metrics_try s now video_id of
        (Inl e, c) \<Rightarrow> (Inl (HTTPException 500), c)
      | (Inr metrics, c) \<Rightarrow> (Inr metrics, c))"

subsection \<open>Trending videos\<close>

text \<open>\<open>KEYS pattern\<close>: the live keys that match, in the table's order. Of the glob syntax
  only \<open>*\<close> is special here; the prefix is taken to hold no other glob character.\<close>

fun glob :: "string \<Rightarrow> string \<Rightarrow> bool" where
  "glob [] s = (s = [])"
| "glob (p # ps) [] = (p = CHR ''*'' \<and> glob ps [])"
| "glob (p # ps) (c # cs) =
     (if p = CHR ''*'' then glob ps (c # cs) \<or> glob (p # ps) cs
      else p = c \<and> glob ps cs)"

definition keys :: "redis_server \<Rightarrow> time \<Rightarrow> string \<Rightarrow> redis_error + string list" where
  "keys r now pattern =
     (if \<not> up r then Inl ConnectionError
      else Inr (map fst (filter (\<lambda>(k, e). live now e \<and> glob pattern k) (hashes r))))"

text \<open>\<open>s.split(sep)\<close> for a one-character separator, and \<open>xs[i]\<close> for \<open>i \<ge> 0\<close>
  (\<open>None\<close> is the \<open>IndexError\<close>).\<close>

fun py_split :: "char \<Rightarrow> string \<Rightarrow> string list" where
  "py_split sep [] = [[]]"
| "py_split sep (c # cs) =
     (if c = sep then [] # py_split sep cs
      else case py_split sep cs of
             [] \<Rightarrow> [[c]]
           | p # ps \<Rightarrow> (c # p) # ps)"

definition py_index :: "'a list \<Rightarrow> nat \<Rightarrow> 'a option" where
  "py_index xs i = (if i < length xs then Some (xs ! i) else None)"

record trending_video =
  tr_video_id :: string
  tr_views :: int
  tr_likes :: int
  tr_engagement_rate :: rat

text \<open>The loop over \<open>zip(video_keys, results)\<close>; \<open>None\<close> is an exception raised inside.\<close>

fun collect_videos :: "(string \<times> (string \<times> rtext) list) list \<Rightarrow> trending_video list option" where
  "collect_videos [] = Some []"
| "collect_videos ((key, metrics) # rest) =
     (if metrics = [] then collect_videos rest
      else do {
        video_id \<leftarrow> py_index (py_split CHR '':'' key) 1;
        views \<leftarrow> get_int metrics ''views'';
        likes \<leftarrow> get_int metrics ''likes'';
        engagement_rate \<leftarrow> get_float metrics ''engagement_rate'';
        videos \<leftarrow> collect_videos rest;
        Some (\<lparr>tr_video_id = video_id, tr_views = views, tr_likes = likes,
               tr_engagement_rate = engagement_rate\<rparr> # videos)
      })"

text \<open>\<open>xs.sort(key=f, reverse=True)\<close>: descending, and stable (elements with equal keys
  keep their order). \<open>xs[:limit]\<close>: a negative limit drops that many from the end.\<close>

definition py_sort_reverse :: "('a \<Rightarrow> 'k::linorder) \<Rightarrow> 'a list \<Rightarrow> 'a list" where
  "py_sort_reverse f xs = rev (sort_key f (rev xs))"

definition py_slice_to :: "'a list \<Rightarrow> int \<Rightarrow> 'a list" where
  "py_slice_to xs limit =
     (if 0 \<le> limit then take (nat limit) xs else take (nat (int (length xs) + limit)) xs)"

text \<open>The candidates of \<open>get_trending_videos\<close>: the list \<open>videos\<close> before it is sorted.\<close>

definition trending_candidates :: "metrics_service \<Rightarrow> time \<Rightarrow> py_exception + trending_video list" where
  "trending_candidates s now =
     (case keys (redis (cache s)) now (prefix (cache s) @ ''video:*:metrics'') of
        Inl e \<Rightarrow> Inl Exception
      | Inr video_keys \<Rightarrow>
          if video_keys = [] then Inr []
          else
            let results = map (\<lambda>key. case hash_at (redis (cache s)) now key of
                                        None \<Rightarrow> [] | Some e \<Rightarrow> hfields e) video_keys
            in case collect_videos (zip video_keys results) of
                 None \<Rightarrow> Inl Exception
               | Some videos \<Rightarrow> Inr videos)"

definition get_trending_videos ::
  "metrics_service \<Rightarrow> time \<Rightarrow> int \<Rightarrow> py_exception + trending_video list" where
  "get_trending_videos s now limit =
     (case trending_candidates s now of
        Inl e \<Rightarrow> Inl (HTTPException 500)
      | Inr videos \<Rightarrow> Inr (py_slice_to (py_sort_reverse tr_engagement_rate videos) limit))"

section \<open>The warehouse\<close>

text \<open>
  BigQuery is seen through the queries the code sends. A table is the list of its rows;
  \<open>insert_rows_json\<close> is a streaming insert, which appends the rows it is given and
  reports no error; the service refuses a request without rows, and a client that cannot
  reach the service raises. The columns are taken to hold no NULL. A datetime is its number of seconds since the epoch.
\<close>

record raw_event =
  video_id :: string
  event_timestamp :: time
  event_type :: string
  user_id :: string
  watch_time :: rat
  country_code :: string
  device_type :: string
  playback_quality :: string

record agg_metrics =
  unique_views :: int
  likes :: int
  total_watch_time :: rat
  unique_users :: int
  countries_reached :: int
  engagement_rate :: rat
  avg_watch_time :: rat

record hourly_row = agg_metrics +
  row_video_id :: string
  row_timestamp :: time

record batch_row =
  br_video_id :: string
  br_timestamp :: time
  br_metrics :: pydict

record warehouse =
  bq_up :: bool
  raw_events :: "raw_event list"
  hourly_metrics :: "hourly_row list"
  aggregated :: "batch_row list"

definition count_distinct :: "'a list \<Rightarrow> int" where
  "count_distinct xs = int (length (remdups xs))"

definition views_of :: "raw_event list \<Rightarrow> raw_event list" where
  "views_of g = filter (\<lambda>e. event_type e = ''view'') g"

definition likes_of :: "raw_event list \<Rightarrow> raw_event list" where
  "likes_of g = filter (\<lambda>e. event_type e = ''like'') g"

section \<open>The hourly rollup (src/processing/batch\_processor.py)\<close>

text \<open>\<open>timestamp.replace(minute=0, second=0, microsecond=0)\<close>.\<close>

definition hour_start_of :: "time \<Rightarrow> time" where
  "hour_start_of ts = of_int (\<lfloor>ts / 3600\<rfloor> * 3600)"

text \<open>One row of the \<open>GROUP BY video_id\<close> query, from the events of one video.\<close>

record aggregation_result =
  q_video_id :: string
  q_unique_views :: int
  q_likes :: int
  q_total_watch_time :: rat
  q_unique_users :: int
  q_countries_reached :: int

definition hourly_query_row :: "string \<Rightarrow> raw_event list \<Rightarrow> aggregation_result" where
  "hourly_query_row v g =
     \<lparr>q_video_id = v,
      q_unique_views = count_distinct (map user_id (views_of g)),
      q_likes = int (length (likes_of g)),
      q_total_watch_time = sum_list (map (\<lambda>e. if event_type e = ''view'' then watch_time e else 0) g),
      q_unique_users = count_distinct (map user_id g),
      q_countries_reached = count_distinct (map country_code g)\<rparr>"

text \<open>The query of \<open>process_hourly_aggregation\<close>. BigQuery does not fix the order of the
  groups; the model lists them by the last event of each video.\<close>

definition hourly_query :: "raw_event list \<Rightarrow> time \<Rightarrow> time \<Rightarrow> aggregation_result list" where
  "hourly_query tbl hour_start hour_end =
     (let sel = filter (\<lambda>e. hour_start \<le> event_timestamp e \<and> event_timestamp e < hour_end) tbl
      in map (\<lambda>v. hourly_query_row v (filter (\<lambda>e. video_id e = v) sel))
           (remdups (map video_id sel)))"

text \<open>\<open>_process_aggregation_results\<close>: the dictionary from video id to
  \<open>{'timestamp': ..., 'metrics': {...}}\<close>, in the order of its keys. A later row of the
  same video would replace the earlier entry in place.\<close>

definition process_aggregation_results ::
  "aggregation_result list \<Rightarrow> time \<Rightarrow> (string \<times> time \<times> agg_metrics) list" where
  "process_aggregation_results df ts =
     fold (\<lambda>row metrics.
             AList.update (q_video_id row)
               (ts,
                \<lparr>unique_views = q_unique_views row,
                 likes = q_likes row,
                 total_watch_time = q_total_watch_time row,
                 unique_users = q_unique_users row,
                 countries_reached = q_countries_reached row,
                 engagement_rate =
                   (if q_unique_views row > 0
                    then of_int (q_likes row) / of_int (q_unique_views row) else 0),
                 avg_watch_time =
                   (if q_unique_views row > 0
                    then q_total_watch_time row / of_int (q_unique_views row) else 0)\<rparr>)
               metrics)
          df []"

definition process_hourly_aggregation ::
  "warehouse \<Rightarrow> time \<Rightarrow> py_exception + (string \<times> time \<times> agg_metrics) list" where
  "process_hourly_aggregation w ts =
     (let hour_start = hour_start_of ts;
          hour_end = hour_start + 3600
      in if \<not> bq_up w then Inl Exception
         else Inr (process_aggregation_results (hourly_query (raw_events w) hour_start hour_end)
                     hour_start))"

text \<open>\<open>save_aggregations\<close>: one row per entry, \<open>{'video_id': ..., 'timestamp': ...,
  **data['metrics']}\<close>, handed to \<open>insert_rows_json\<close>.\<close>

definition save_aggregations ::
  "warehouse \<Rightarrow> (string \<times> time \<times> agg_metrics) list \<Rightarrow> py_exception + warehouse" where
  "save_aggregations w metrics =
     (let rows_to_insert =
            map (\<lambda>(v, ts, m). agg_metrics.extend m \<lparr>row_video_id = v, row_timestamp = ts\<rparr>) metrics
      in if \<not> bq_up w \<or> rows_to_insert = [] then Inl Exception
         else Inr (w\<lparr>hourly_metrics := hourly_metrics w @ rows_to_insert\<rparr>))"

text \<open>One run of the rollup for the bucket of \<open>ts\<close>: aggregate, then save.\<close>

definition hourly_rollup :: "warehouse \<Rightarrow> time \<Rightarrow> py_exception + warehouse" where
  "hourly_rollup w ts =
     (case process_hourly_aggregation w ts of
        Inl e \<Rightarrow> Inl e
      | Inr metrics \<Rightarrow> save_aggregations w metrics)"

section \<open>The batch job of src/storage/bigquery\_handler.py\<close>

text \<open>\<open>Series.value_counts().to_dict()\<close>: every value with the number of its occurrences.
  The order of a dictionary's entries does not matter to Python's equality; the model
  lists the values by their last occurrence.\<close>

definition value_counts :: "string list \<Rightarrow> (string \<times> int) list" where
  "value_counts xs = map (\<lambda>x. (x, int (length (filter (\<lambda>y. y = x) xs)))) (remdups xs)"

text \<open>\<open>_aggregate_metrics\<close>, for one group of \<open>df.groupby('video_id')\<close>: the dictionary
  literal, then the entry \<open>engagement_rate\<close> added to it.\<close>

definition aggregate_group :: "raw_event list \<Rightarrow> pydict" where
  "aggregate_group g =
     (let unique_views = count_distinct (map user_id (views_of g));
          likes = int (length (likes_of g));
          metrics =
            [(''unique_views'', PInt unique_views),
             (''likes'', PInt likes),
             (''total_watch_time'', PFloat (sum_list (map watch_time (views_of g)))),
             (''unique_users'', PInt (count_distinct (map user_id g))),
             (''countries_reached'', PInt (count_distinct (map country_code g))),
             (''device_breakdown'', PDict (value_counts (map device_type g))),
             (''quality_breakdown'', PDict (value_counts (map playback_quality g)))]
      in if unique_views > 0
         then AList.update ''engagement_rate'' (PFloat (of_int likes / of_int unique_views)) metrics
         else AList.update ''engagement_rate'' (PInt 0) metrics)"

text \<open>\<open>groupby\<close> yields the groups in the sorted order of their keys.\<close>

definition aggregate_metrics :: "raw_event list \<Rightarrow> (string \<times> pydict) list" where
  "aggregate_metrics df =
     map (\<lambda>v. (v, aggregate_group (filter (\<lambda>e. video_id e = v) df)))
       (sort (remdups (map video_id df)))"

definition save_aggregated_metrics ::
  "warehouse \<Rightarrow> (string \<times> pydict) list \<Rightarrow> time \<Rightarrow> py_exception + warehouse" where
  "save_aggregated_metrics w metrics ts =
     (let rows_to_insert =
            map (\<lambda>(v, video_metrics).
                   \<lparr>br_video_id = v, br_timestamp = ts, br_metrics = video_metrics\<rparr>) metrics
      in if \<not> bq_up w \<or> rows_to_insert = [] then Inl Exception
         else Inr (w\<lparr>aggregated := aggregated w @ rows_to_insert\<rparr>))"

text \<open>\<open>process_batch\<close>, given the batch timestamp: the events of the hour that ends there,
  both ends included (\<open>BETWEEN\<close>); nothing is saved when there are none.\<close>

definition process_batch ::
  "warehouse \<Rightarrow> time \<Rightarrow> py_exception + (string \<times> pydict) list \<times> warehouse" where
  "process_batch w batch_timestamp =
     (let window_start = batch_timestamp - 3600
      in if \<not> bq_up w then Inl Exception
         else
           let df = filter (\<lambda>e. window_start \<le> event_timestamp e \<and>
                                 event_timestamp e \<le> batch_timestamp) (raw_events w)
           in if df = [] then Inr ([], w)
              else
                let aggregated_metrics = aggregate_metrics df
                in case save_aggregated_metrics w aggregated_metrics batch_timestamp of
                     Inl e \<Rightarrow> Inl e
                   | Inr w' \<Rightarrow> Inr (aggregated_metrics, w'))"

section \<open>Historical metrics (src/serving/api\_server.py)\<close>

record video_metrics =
  vm_video_id :: string
  vm_views :: int
  vm_likes :: int
  vm_watch_time :: rat
  vm_unique_users :: int
  vm_countries_reached :: int
  vm_engagement_rate :: rat
  vm_avg_watch_time :: rat

record time_range_metrics =
  start_time :: time
  end_time :: time
  metrics :: video_metrics

text \<open>SQL's \<open>MAX\<close> and \<open>AVG\<close> over the values of a group, which is never empty.\<close>

fun sql_max :: "int list \<Rightarrow> int" where
  "sql_max [] = 0"
| "sql_max (x # xs) = fold max xs x"

definition sql_avg :: "rat list \<Rightarrow> rat" where
  "sql_avg xs = sum_list xs / of_nat (length xs)"

text \<open>The rows the query of \<open>get_historical_metrics\<close> selects, and the body of its \<open>try\<close>
  block: the 404 for an empty result is raised inside it.\<close>

definition historical_rows :: "warehouse \<Rightarrow> string \<Rightarrow> time \<Rightarrow> time \<Rightarrow> hourly_row list" where
  "historical_rows w v start end =
     filter (\<lambda>r. row_video_id r = v \<and> start \<le> row_timestamp r \<and> row_timestamp r \<le> end)
       (hourly_metrics w)"

definition get_historical_metrics_try ::
  "warehouse \<Rightarrow> string \<Rightarrow> time \<Rightarrow> time \<Rightarrow> py_exception + time_range_metrics" where
  "get_historical_metrics_try w v start end =
     (if \<not> bq_up w then Inl Exception
      else
        let rows = historical_rows w v start end
        in if rows = [] then Inl (HTTPException 404)
           else Inr \<lparr>start_time = start, end_time = end,
                     metrics =
                       \<lparr>vm_video_id = v,
                        vm_views = sum_list (map unique_views rows),
                        vm_likes = sum_list (map likes rows),
                        vm_watch_time = sum_list (map total_watch_time rows),
                        vm_unique_users = sum_list (map unique_users rows),
                        vm_countries_reached = sql_max (map countries_reached rows),
                        vm_engagement_rate = sql_avg (map engagement_rate rows),
                        vm_avg_watch_time = sql_avg (map avg_watch_time rows)\<rparr>\<rparr>)"

definition get_historical_metrics ::
  "warehouse \<Rightarrow> string \<Rightarrow> time \<Rightarrow> time \<Rightarrow> py_exception + time_range_metrics" where
  "get_historical_metrics w v start end =
     (case get_historical_metrics_try w v start end of
        Inl e \<Rightarrow> Inl (HTTPException 500)
      | Inr m \<Rightarrow> Inr m)"

section \<open>Example states\<close>

definition server0 :: redis_server where
  "server0 = \<lparr>up = True, hashes = [], zsets = []\<rparr>"

definition cache0 :: redis_cache where
  "cache0 = \<lparr>redis = server0, prefix = ''yt:'', default_ttl = 3600\<rparr>"

definition record0 :: pydict where
  "record0 = [(''views'', PInt 10), (''likes'', PInt 2), (''watch_time'', PFloat 50),
              (''unique_users'', PInt 10), (''countries_reached'', PInt 3),
              (''engagement_rate'', PFloat (1 / 5)), (''avg_watch_time'', PFloat 5)]"

text \<open>A stored hash that lacks six of the seven fields and has one of its own.\<close>

definition entry_partial :: hentry where
  "entry_partial = \<lparr>hfields = [(''views'', IntText 7), (''title'', OtherText (PStr ''intro''))],
                     expire_at = None\<rparr>"

definition cache_partial :: redis_cache where
  "cache_partial = cache0\<lparr>redis := server0\<lparr>hashes := [(''yt:video:v1:metrics'', entry_partial)]\<rparr>\<rparr>"

text \<open>The same cache behind a server that cannot be reached.\<close>

definition cache_down :: redis_cache where
  "cache_down = cache_partial\<lparr>redis := (redis cache_partial)\<lparr>up := False\<rparr>\<rparr>"

text \<open>The cache after \<open>record0\<close> was written for \<open>v1\<close> at time 100 with a ttl of 60.\<close>

definition entry_stored :: hentry where
  "entry_stored = \<lparr>hfields = map (\<lambda>(k, v). (k, py_str v)) record0, expire_at = Some 160\<rparr>"

definition cache_stored :: redis_cache where
  "cache_stored = cache0\<lparr>redis := server0\<lparr>hashes := [(''yt:video:v1:metrics'', entry_stored)]\<rparr>\<rparr>"

text \<open>Events of video \<open>v1\<close> at the times 0, 100, 200 and 400 and an event of video \<open>v2\<close>
  at the time 50, each added when it happens, with a window of 300 seconds: the windows
  before the event of 400 is added, and after. The last event has an ISO date string as
  its timestamp.\<close>

definition window_three :: redis_cache where
  "window_three =
     fold (\<lambda>(t, video, name) c.
             snd (add_to_processing_window c t video
                    \<lparr>timestamp = Some (PFloat t), json = Some name\<rparr> 300))
       [(0, ''v1'', ''e0''), (50, ''v2'', ''f50''), (100, ''v1'', ''e100''),
        (200, ''v1'', ''e200'')] cache0"

definition event_400 :: event where
  "event_400 = \<lparr>timestamp = Some (PInt 400), json = Some ''e400''\<rparr>"

definition window_example :: redis_cache where
  "window_example = snd (add_to_processing_window window_three 400 ''v1'' event_400 300)"

definition event_iso :: event where
  "event_iso = \<lparr>timestamp = Some (PStr ''2024-01-01T00:16:40''), json = Some ''late''\<rparr>"

text \<open>A service over the empty cache whose warehouse has no rows for any video, and one
  whose warehouse answers with \<open>record0\<close>.\<close>

definition bq_no_rows :: bigquery_handler where
  "bq_no_rows = (\<lambda>video_id start_time end_time table. Inr None)"

definition bq_record0 :: bigquery_handler where
  "bq_record0 = (\<lambda>video_id start_time end_time table. Inr (Some record0))"

definition service_no_rows :: metrics_service where
  "service_no_rows = \<lparr>cache = cache0, bigquery = Some bq_no_rows, config_events_table = None\<rparr>"

definition service_record0 :: metrics_service where
  "service_record0 = \<lparr>cache = cache0, bigquery = Some bq_record0, config_events_table = None\<rparr>"

text \<open>Three cached videos with the engagement rates 0.5, 0.9, 0.9 and the views 10, 5, 8,
  listed by the server in this order.\<close>

definition cache_trending :: redis_cache where
  "cache_trending = cache0\<lparr>redis := server0\<lparr>hashes :=
     [(''yt:video:a:metrics'',
       \<lparr>hfields = [(''views'', IntText 10), (''likes'', IntText 5),
                   (''engagement_rate'', FloatText (1 / 2))], expire_at = None\<rparr>),
      (''yt:video:b:metrics'',
       \<lparr>hfields = [(''views'', IntText 5), (''likes'', IntText 4),
                   (''engagement_rate'', FloatText (9 / 10))], expire_at = None\<rparr>),
      (''yt:video:c:metrics'',
       \<lparr>hfields = [(''views'', IntText 8), (''likes'', IntText 7),
                   (''engagement_rate'', FloatText (9 / 10))], expire_at = None\<rparr>)]\<rparr>\<rparr>"

definition service_trending :: metrics_service where
  "service_trending = \<lparr>cache = cache_trending, bigquery = None, config_events_table = None\<rparr>"

text \<open>A warehouse with one view event of video \<open>v1\<close> in the hour that starts at 0, and the
  warehouse after running each batch job twice for that hour.\<close>

definition event_v1 :: raw_event where
  "event_v1 = \<lparr>video_id = ''v1'', event_timestamp = 10, event_type = ''view'', user_id = ''u1'',
               watch_time = 30, country_code = ''DE'', device_type = ''tv'',
               playback_quality = ''hd''\<rparr>"

definition warehouse_one :: warehouse where
  "warehouse_one = \<lparr>bq_up = True, raw_events = [event_v1], hourly_metrics = [], aggregated = []\<rparr>"

definition twice :: "(warehouse \<Rightarrow> py_exception + warehouse) \<Rightarrow> warehouse \<Rightarrow> warehouse" where
  "twice job w =
     (case job w of
        Inl e \<Rightarrow> w
      | Inr w1 \<Rightarrow> (case job w1 of Inl e \<Rightarrow> w1 | Inr w2 \<Rightarrow> w2))"

text \<open>Two hourly rows of one video, as the rollup writes them: 5 likes on 10 views, and
  no like on 1 view; and the two rows of the specification's example.\<close>

definition hourly_row_of :: "string \<Rightarrow> time \<Rightarrow> int \<Rightarrow> int \<Rightarrow> rat \<Rightarrow> hourly_row" where
  "hourly_row_of v ts n_views n_likes wt =
     \<lparr>unique_views = n_views, likes = n_likes, total_watch_time = wt, unique_users = n_views,
      countries_reached = 1,
      engagement_rate = (if n_views > 0 then of_int n_likes / of_int n_views else 0),
      avg_watch_time = (if n_views > 0 then wt / of_int n_views else 0),
      row_video_id = v, row_timestamp = ts\<rparr>"

definition warehouse_skewed :: warehouse where
  "warehouse_skewed = \<lparr>bq_up = True, raw_events = [],
     hourly_metrics = [hourly_row_of ''v1'' 0 10 5 100, hourly_row_of ''v1'' 3600 1 0 1],
     aggregated = []\<rparr>"

definition warehouse_example :: warehouse where
  "warehouse_example = \<lparr>bq_up = True, raw_events = [],
     hourly_metrics = [hourly_row_of ''v1'' 0 10 2 100, hourly_row_of ''v1'' 3600 5 1 50],
     aggregated = []\<rparr>"


section \<open>Association lists and the Redis commands\<close>

lemma map_of_fold_update:
  "map_of (fold (\<lambda>(f, v). AList.update f v) ms fs) = map_of fs ++ map_of (rev ms)"
proof (induction ms arbitrary: fs)
  case Nil
  show ?case by simp
next
  case (Cons a ms)
  obtain f v where a: "a = (f, v)" by (cases a)
  show ?case
    by (simp add: a Cons.IH AList.update_conv' map_add_upd_left fun_eq_iff map_add_def split: option.splits)
qed

lemma map_of_rev_distinct:
  "distinct (map fst xs) \<Longrightarrow> map_of (rev xs) = map_of xs"
proof (induction xs)
  case Nil
  show ?case by simp
next
  case (Cons a xs)
  obtain k v where a: "a = (k, v)" by (cases a)
  from Cons.prems have k: "map_of xs k = None" and d: "distinct (map fst xs)"
    by (auto simp: a map_of_eq_None_iff)
  show ?case
    using k by (auto simp: a Cons.IH[OF d] fun_eq_iff map_add_def split: option.splits)
qed

lemma hash_at_update_same:
  "hash_at (r\<lparr>hashes := AList.update k e (hashes r)\<rparr>) now k = (if live now e then Some e else None)"
  by (simp add: hash_at_def AList.update_conv')

lemma hash_at_update_other:
  "k' \<noteq> k \<Longrightarrow> hash_at (r\<lparr>hashes := AList.update k e (hashes r)\<rparr>) now k' = hash_at r now k'"
  by (simp add: hash_at_def AList.update_conv')

lemma hash_at_delete_same:
  "hash_at (r\<lparr>hashes := AList.delete k (hashes r)\<rparr>) now k = None"
  by (simp add: hash_at_def AList.delete_conv')

lemma hash_at_live: "hash_at r now k = Some e \<Longrightarrow> live now e"
  by (auto simp: hash_at_def split: option.splits if_splits)

lemma hmset_hash_at:
  "\<exists>old. hash_at (hmset r now k ms) now k =
      Some (old\<lparr>hfields := fold (\<lambda>(f, v). AList.update f v) ms (hfields old)\<rparr>)
    \<and> (case hash_at r now k of None \<Rightarrow> old = \<lparr>hfields = [], expire_at = None\<rparr> | Some e \<Rightarrow> old = e)"
  by (auto simp: hmset_def Let_def hash_at_update_same live_def dest: hash_at_live split: option.splits)

lemma expire_hmset_hash_at:
  "hash_at (expire (hmset r t0 k ms) t0 k T) t k =
     (if 0 < T \<and> t < t0 + of_int T
      then Some \<lparr>hfields = fold (\<lambda>(f, v). AList.update f v) ms
                    (case hash_at r t0 k of None \<Rightarrow> [] | Some e \<Rightarrow> hfields e),
                 expire_at = Some (t0 + of_int T)\<rparr>
      else None)"
proof -
  obtain old where old: "hash_at (hmset r t0 k ms) t0 k =
      Some (old\<lparr>hfields := fold (\<lambda>(f, v). AList.update f v) ms (hfields old)\<rparr>)"
    and o2: "(case hash_at r t0 k of None \<Rightarrow> old = \<lparr>hfields = [], expire_at = None\<rparr> | Some e \<Rightarrow> old = e)"
    using hmset_hash_at[of r t0 k ms] by blast
  have f: "hfields old = (case hash_at r t0 k of None \<Rightarrow> [] | Some e \<Rightarrow> hfields e)"
    using o2 by (auto split: option.splits)
  show ?thesis
    by (simp add: expire_def old hash_at_update_same hash_at_delete_same live_def f)
qed

lemma up_expire_hmset [simp]: "up (expire (hmset r t0 k ms) t0 k T) = up r"
  by (simp add: expire_def hmset_def Let_def split: option.splits)

section \<open>What a cache read returns\<close>

lemma get_video_metrics_SomeD:
  assumes "get_video_metrics c now vid = Some r"
  shows "\<exists>e v l w u cr er aw.
           hash_at (redis c) now (metrics_key c vid) = Some e \<and> hfields e \<noteq> [] \<and>
           get_int (hfields e) ''views'' = Some v \<and>
           get_int (hfields e) ''likes'' = Some l \<and>
           get_float (hfields e) ''watch_time'' = Some w \<and>
           get_int (hfields e) ''unique_users'' = Some u \<and>
           get_int (hfields e) ''countries_reached'' = Some cr \<and>
           get_float (hfields e) ''engagement_rate'' = Some er \<and>
           get_float (hfields e) ''avg_watch_time'' = Some aw \<and>
           r = [(''views'', PInt v), (''likes'', PInt l), (''watch_time'', PFloat w),
                (''unique_users'', PInt u), (''countries_reached'', PInt cr),
                (''engagement_rate'', PFloat er), (''avg_watch_time'', PFloat aw)]"
  using assms
  by (auto simp: get_video_metrics_def hgetall_def
      split: if_splits option.splits sum.splits Option.bind_splits)

text \<open>
  C10. A successful cache read returns a dictionary with exactly the seven fields views,
  likes, watch\_time, unique\_users, countries\_reached, engagement\_rate and
  avg\_watch\_time, in this order, whatever the stored hash holds: a field the hash lacks
  is returned as 0 (the int 0 for the four counters, the float 0 for the three rates),
  a field it has is returned converted by \<open>int\<close> or \<open>float\<close>, and every other stored
  field is left out.
\<close>

theorem cache_get_seven_fields:
  assumes "hash_at (redis c) now (metrics_key c vid) = Some e"
    and "get_video_metrics c now vid = Some r"
  shows "map fst r = metric_fields
       \<and> (\<forall>f \<in> set int_fields. map_of (hfields e) f = None \<longrightarrow> map_of r f = Some (PInt 0))
       \<and> (\<forall>f \<in> set float_fields. map_of (hfields e) f = None \<longrightarrow> map_of r f = Some (PFloat 0))
       \<and> (\<forall>f \<in> set int_fields. \<forall>t. map_of (hfields e) f = Some t \<longrightarrow>
             map_of r f = map_option PInt (py_int t))
       \<and> (\<forall>f \<in> set float_fields. \<forall>t. map_of (hfields e) f = Some t \<longrightarrow>
             map_of r f = map_option PFloat (py_float t))
       \<and> (\<forall>f. f \<notin> set metric_fields \<longrightarrow> map_of r f = None)"
  using get_video_metrics_SomeD[OF assms(2)] assms(1)
  by (auto simp: metric_fields_def int_fields_def float_fields_def get_int_def get_float_def)

theorem cache_get_seven_fields_witness:
  "hash_at (redis cache_partial) 0 (metrics_key cache_partial ''v1'') = Some entry_partial
   \<and> get_video_metrics cache_partial 0 ''v1'' =
       Some [(''views'', PInt 7), (''likes'', PInt 0), (''watch_time'', PFloat 0),
             (''unique_users'', PInt 0), (''countries_reached'', PInt 0),
             (''engagement_rate'', PFloat 0), (''avg_watch_time'', PFloat 0)]
   \<and> map_of (hfields entry_partial) ''title'' = Some (OtherText (PStr ''intro''))
   \<and> map fst [(''views'', PInt 7), (''likes'', PInt 0), (''watch_time'', PFloat 0),
             (''unique_users'', PInt 0), (''countries_reached'', PInt 0),
             (''engagement_rate'', PFloat 0), (''avg_watch_time'', PFloat (0::rat))] = metric_fields"
proof -
  have h: "hash_at (redis cache_partial) 0 (metrics_key cache_partial ''v1'') = Some entry_partial"
    by (simp add: cache_partial_def cache0_def server0_def hash_at_def metrics_key_def
        get_key_def live_def entry_partial_def)
  have g: "get_video_metrics cache_partial 0 ''v1'' =
       Some [(''views'', PInt 7), (''likes'', PInt 0), (''watch_time'', PFloat 0),
             (''unique_users'', PInt 0), (''countries_reached'', PInt 0),
             (''engagement_rate'', PFloat 0), (''avg_watch_time'', PFloat 0)]"
    by (simp add: get_video_metrics_def hgetall_def h)
       (simp add: cache_partial_def cache0_def server0_def entry_partial_def get_int_def
        get_float_def)
  from cache_get_seven_fields[OF h g] h g show ?thesis
    by (simp add: entry_partial_def)
qed


section \<open>Writing a record and reading it back\<close>

lemma set_video_metrics_up:
  assumes "up (redis c)" and "m \<noteq> []"
  shows "set_video_metrics c t0 vid m ttl =
           (True, c\<lparr>redis := expire (hmset (redis c) t0 (metrics_key c vid)
                                   (map (\<lambda>(k, v). (k, py_str v)) m)) t0 (metrics_key c vid)
                                (ttl_or_default c ttl)\<rparr>)"
  using assms by (simp add: set_video_metrics_def Let_def)

lemma map_of_py_str:
  "map_of (map (\<lambda>(k, v). (k, py_str v)) m) f = map_option py_str (map_of m f)"
  by (induction m) auto

lemma stored_lookup:
  assumes "distinct (map fst m)"
  shows "map_of (fold (\<lambda>(f, v). AList.update f v) (map (\<lambda>(k, v). (k, py_str v)) m) fs) f =
           (case map_of m f of None \<Rightarrow> map_of fs f | Some v \<Rightarrow> Some (py_str v))"
proof -
  have d: "distinct (map fst (map (\<lambda>(k, v). (k, py_str v)) m))"
    using assms by (simp add: comp_def case_prod_unfold)
  show ?thesis
    by (simp add: map_of_fold_update map_of_rev_distinct[OF d] map_of_py_str map_add_def
        split: option.splits)
qed

lemma is_metrics_recordD:
  assumes "is_metrics_record m"
  obtains v l w u cr er aw where
    "map_of m ''views'' = Some (PInt v)" "map_of m ''likes'' = Some (PInt l)"
    "map_of m ''watch_time'' = Some (PFloat w)" "map_of m ''unique_users'' = Some (PInt u)"
    "map_of m ''countries_reached'' = Some (PInt cr)"
    "map_of m ''engagement_rate'' = Some (PFloat er)"
    "map_of m ''avg_watch_time'' = Some (PFloat aw)"
  using assms unfolding is_metrics_record_def int_fields_def float_fields_def
  by (auto split: option.splits pyval.splits)

lemma metrics_record_roundtrip:
  assumes rec: "is_metrics_record m"
    and h: "hgetall r t k = Inr (fold (\<lambda>(f, v). AList.update f v) (map (\<lambda>(k, v). (k, py_str v)) m) fs)"
    and c: "redis c = r" "metrics_key c vid = k"
  shows "\<exists>r'. get_video_metrics c t vid = Some r' \<and> map_of r' = map_of m"
proof -
  from rec have d: "distinct (map fst m)" and ks: "set (map fst m) = set metric_fields"
    by (simp_all add: is_metrics_record_def)
  from rec obtain v l w u cr er aw where f:
    "map_of m ''views'' = Some (PInt v)" "map_of m ''likes'' = Some (PInt l)"
    "map_of m ''watch_time'' = Some (PFloat w)" "map_of m ''unique_users'' = Some (PInt u)"
    "map_of m ''countries_reached'' = Some (PInt cr)"
    "map_of m ''engagement_rate'' = Some (PFloat er)"
    "map_of m ''avg_watch_time'' = Some (PFloat aw)"
    by (rule is_metrics_recordD)
  let ?F = "fold (\<lambda>(f, v). AList.update f v) (map (\<lambda>(k, v). (k, py_str v)) m) fs"
  let ?r = "[(''views'', PInt v), (''likes'', PInt l), (''watch_time'', PFloat w),
             (''unique_users'', PInt u), (''countries_reached'', PInt cr),
             (''engagement_rate'', PFloat er), (''avg_watch_time'', PFloat aw)]"
  have ne: "?F \<noteq> []"
  proof
    assume "?F = []"
    then have "map_of ?F ''views'' = None" by simp
    then show False by (simp add: stored_lookup[OF d] f)
  qed
  have g: "get_video_metrics c t vid = Some ?r"
    using ne by (simp add: get_video_metrics_def c h get_int_def get_float_def stored_lookup[OF d] f)
  have "map_of ?r x = map_of m x" for x
  proof (cases "x \<in> set metric_fields")
    case True
    then show ?thesis by (auto simp: metric_fields_def f)
  next
    case False
    then have "map_of m x = None" using ks by (simp add: map_of_eq_None_iff)
    moreover have "map_of ?r x = None" using False by (auto simp: metric_fields_def)
    ultimately show ?thesis by simp
  qed
  then have "map_of ?r = map_of m" by (rule ext)
  with g show ?thesis by blast
qed

text \<open>
  C6 (amended). On a reachable server, for every video id, every Metrics Record (the
  seven fields, each with a value of its type) and every ttl, let \<open>T\<close> be the ttl if one
  is given and is not 0, and the cache's default TTL otherwise. A set at time \<open>t0\<close>
  succeeds; when \<open>T > 0\<close>, a get at a time from \<open>t0\<close> up to but excluding \<open>t0 + T\<close>
  returns the written record (a dictionary with the same entries); a get at \<open>t0 + T\<close> or
  later returns Miss; and a get for a key that is absent returns Miss.
\<close>

theorem cache_set_then_get:
  assumes "up (redis c)" and "is_metrics_record m"
    and "set_video_metrics c t0 vid m ttl = (ok, c')"
  shows "ok
       \<and> (0 < ttl_or_default c ttl \<and> t0 \<le> t \<and> t < t0 + of_int (ttl_or_default c ttl) \<longrightarrow>
            (\<exists>r. get_video_metrics c' t vid = Some r \<and> map_of r = map_of m))
       \<and> (t0 + of_int (ttl_or_default c ttl) \<le> t \<longrightarrow> get_video_metrics c' t vid = None)
       \<and> (hash_at (redis c) t (metrics_key c vid) = None \<longrightarrow>
            get_video_metrics c t vid = None)"
proof -
  let ?k = "metrics_key c vid"
  let ?ms = "map (\<lambda>(k, v). (k, py_str v)) m"
  let ?T = "ttl_or_default c ttl"
  have ne: "m \<noteq> []"
    using assms(2) by (rule is_metrics_recordD) auto
  from set_video_metrics_up[OF assms(1) ne, of t0 vid ttl] assms(3)
  have ok: "ok" and c': "c' = c\<lparr>redis := expire (hmset (redis c) t0 ?k ?ms) t0 ?k ?T\<rparr>"
    by simp_all
  have k': "metrics_key c' vid = ?k" by (simp add: c' metrics_key_def get_key_def)
  have hit: "\<exists>r. get_video_metrics c' t vid = Some r \<and> map_of r = map_of m"
    if "0 < ?T" "t < t0 + of_int ?T"
  proof (rule metrics_record_roundtrip[OF assms(2) _ refl k'])
    show "hgetall (redis c') t ?k = Inr (fold (\<lambda>(f, v). AList.update f v) ?ms
            (case hash_at (redis c) t0 ?k of None \<Rightarrow> [] | Some e \<Rightarrow> hfields e))"
      using that assms(1) by (simp add: hgetall_def c' expire_hmset_hash_at)
  qed
  have gone: "hash_at (redis c') t ?k = None" if "t0 + of_int ?T \<le> t"
    using that by (simp add: c' expire_hmset_hash_at)
  have miss: "get_video_metrics c' t vid = None" if "t0 + of_int ?T \<le> t"
    by (simp add: get_video_metrics_def k' hgetall_def gone[OF that])
  have absent: "get_video_metrics c t vid = None" if "hash_at (redis c) t ?k = None"
    using that by (simp add: get_video_metrics_def hgetall_def)
  from ok hit miss absent show ?thesis by blast
qed

lemmas cache_eval =
  set_video_metrics_def get_video_metrics_def hgetall_def hmset_def expire_def hash_at_def
  live_def metrics_key_def get_key_def ttl_or_default_def get_int_def get_float_def
  cache0_def server0_def record0_def Let_def

theorem cache_set_then_get_witness:
  "up (redis cache0) \<and> is_metrics_record record0
   \<and> set_video_metrics cache0 100 ''v1'' record0 (Some 60) =
       (True, snd (set_video_metrics cache0 100 ''v1'' record0 (Some 60)))
   \<and> (0::int) < ttl_or_default cache0 (Some 60)
   \<and> get_video_metrics (snd (set_video_metrics cache0 100 ''v1'' record0 (Some 60))) 130 ''v1''
       = Some record0
   \<and> get_video_metrics (snd (set_video_metrics cache0 100 ''v1'' record0 (Some 60))) 160 ''v1''
       = None
   \<and> get_video_metrics cache0 130 ''v1'' = None"
proof -
  have u: "up (redis cache0)" by (simp add: cache0_def server0_def)
  have r: "is_metrics_record record0"
    by (simp add: is_metrics_record_def record0_def metric_fields_def int_fields_def
        float_fields_def)
  have s: "set_video_metrics cache0 100 ''v1'' record0 (Some 60) =
       (True, snd (set_video_metrics cache0 100 ''v1'' record0 (Some 60)))"
    by (simp add: cache_eval)
  from cache_set_then_get[OF u r s, of 130] cache_set_then_get[OF u r s, of 160] u r s
  show ?thesis
    by (simp add: cache_eval)
qed

theorem cache_ttl_zero_counterexample:
  "get_video_metrics (snd (set_video_metrics cache0 100 ''v1'' record0 (Some 0))) 101 ''v1''
     = Some record0"
  by (simp add: cache_eval)



section \<open>Failures of the backend\<close>

lemma hincrby_absent:
  assumes "hash_at r now k = None" and "in_i64 d"
  shows "hincrby r now k f d =
           Inr (r\<lparr>hashes := AList.update k \<lparr>hfields = [(f, IntText d)], expire_at = None\<rparr> (hashes r)\<rparr>)"
  using assms by (simp add: hincrby_def Let_def in_i64_def)

lemma hincrby_present:
  assumes "hash_at r now k = Some e"
    and "case map_of (hfields e) f of None \<Rightarrow> n = 0 | Some t \<Rightarrow> t = IntText n \<and> in_i64 n"
    and "in_i64 d" and "in_i64 (n + d)"
  shows "hincrby r now k f d =
           Inr (r\<lparr>hashes := AList.update k (e\<lparr>hfields := AList.update f (IntText (n + d)) (hfields e)\<rparr>) (hashes r)\<rparr>)"
  using assms by (auto simp: hincrby_def Let_def split: option.splits)

text \<open>
  C7 (amended). When the backend cannot be reached, get returns \<open>None\<close>, the very value
  it returns for a key that is absent or expired, so a caller of get cannot tell the two
  apart; set, and increment of a non-empty dictionary, return \<open>False\<close> and leave the cache
  as it was. Increment of an empty dictionary sends nothing and returns \<open>True\<close> whether
  the backend can be reached or not. On a reachable server set returns \<open>True\<close> for a
  non-empty record and a ttl of at most 32 bits, and increment returns \<open>True\<close> for a
  64-bit delta on a field of an absent entry.
\<close>

theorem cache_failure_results:
  "(\<not> up (redis c) \<longrightarrow>
      get_video_metrics c now vid = None
    \<and> set_video_metrics c now vid m ttl = (False, c)
    \<and> (d \<noteq> [] \<longrightarrow> increment_metrics c now vid d = (False, c)))
   \<and> increment_metrics c now vid [] = (True, c)
   \<and> (up (redis c) \<and> hash_at (redis c) now (metrics_key c vid) = None \<longrightarrow>
        get_video_metrics c now vid = None)
   \<and> (up (redis c) \<and> m \<noteq> []
        \<and> - (2 ^ 31) \<le> ttl_or_default c ttl \<and> ttl_or_default c ttl < 2 ^ 31 \<longrightarrow>
        fst (set_video_metrics c now vid m ttl))
   \<and> (up (redis c) \<and> hash_at (redis c) now (metrics_key c vid) = None \<and> in_i64 delta \<longrightarrow>
        fst (increment_metrics c now vid [(f, delta)]))"
proof -
  have down: "get_video_metrics c now vid = None
      \<and> set_video_metrics c now vid m ttl = (False, c)
      \<and> (d \<noteq> [] \<longrightarrow> increment_metrics c now vid d = (False, c))" if "\<not> up (redis c)"
    using that
    by (simp add: get_video_metrics_def hgetall_def set_video_metrics_def Let_def
        increment_metrics_def)
  have empty: "increment_metrics c now vid [] = (True, c)"
    by (simp add: increment_metrics_def)
  have miss: "get_video_metrics c now vid = None"
    if "hash_at (redis c) now (metrics_key c vid) = None"
    using that by (simp add: get_video_metrics_def hgetall_def)
  have set_ok: "fst (set_video_metrics c now vid m ttl)" if "up (redis c)" "m \<noteq> []"
    using that by (simp add: set_video_metrics_def Let_def)
  have inc_ok: "fst (increment_metrics c now vid [(f, delta)])"
    if "up (redis c)" "hash_at (redis c) now (metrics_key c vid) = None" "in_i64 delta"
    using that by (simp add: increment_metrics_def hincrby_absent)
  from down empty miss set_ok inc_ok show ?thesis by blast
qed

theorem cache_failure_results_witness:
  "\<not> up (redis cache_down)
   \<and> get_video_metrics cache_down 0 ''v1'' = None
   \<and> set_video_metrics cache_down 0 ''v1'' record0 None = (False, cache_down)
   \<and> [(''views'', 1::int)] \<noteq> []
   \<and> increment_metrics cache_down 0 ''v1'' [(''views'', 1)] = (False, cache_down)
   \<and> increment_metrics cache_down 0 ''v1'' [] = (True, cache_down)
   \<and> up (redis cache0) \<and> hash_at (redis cache0) 0 (metrics_key cache0 ''v1'') = None
   \<and> record0 \<noteq> [] \<and> in_i64 1
   \<and> - (2 ^ 31) \<le> ttl_or_default cache0 None \<and> ttl_or_default cache0 None < 2 ^ 31
   \<and> get_video_metrics cache0 0 ''v1'' = None
   \<and> fst (set_video_metrics cache0 0 ''v1'' record0 None)
   \<and> fst (increment_metrics cache0 0 ''v1'' [(''views'', 1)])"
proof -
  have a: "\<not> up (redis cache_down)"
    by (simp add: cache_down_def cache_partial_def cache0_def server0_def)
  have b: "up (redis cache0)" "hash_at (redis cache0) 0 (metrics_key cache0 ''v1'') = None"
    "record0 \<noteq> []" "in_i64 1"
    "- (2 ^ 31) \<le> ttl_or_default cache0 None" "ttl_or_default cache0 None < 2 ^ 31"
    by (simp_all add: cache0_def server0_def hash_at_def record0_def in_i64_def
        ttl_or_default_def)
  from cache_failure_results[of cache_down 0 "''v1''" record0 None "[(''views'', 1)]" 1 "''views''"]
    cache_failure_results[of cache0 0 "''v1''" record0 None "[(''views'', 1)]" 1 "''views''"] a b
  show ?thesis by simp
qed

theorem cache_failure_counterexample:
  "\<not> up (redis cache_down)
   \<and> hash_at (redis cache_down) 0 (metrics_key cache_down ''v1'') = Some entry_partial
   \<and> get_video_metrics cache_down 0 ''v1'' = None
   \<and> up (redis cache0)
   \<and> get_video_metrics cache0 0 ''v1'' = None"
  by (simp add: cache_down_def cache_partial_def cache_eval entry_partial_def)

section \<open>Incrementing a counter\<close>

lemma hincrby_cases:
  assumes "hash_at r now k = Some e"
  shows "(\<exists>err. hincrby r now k f d = Inl err)
       \<or> (\<exists>n. hincrby r now k f d =
              Inr (r\<lparr>hashes := AList.update k (e\<lparr>hfields := AList.update f (IntText n) (hfields e)\<rparr>)
                                 (hashes r)\<rparr>))"
  using assms by (auto simp: hincrby_def Let_def split: option.splits)

text \<open>
  C8 (amended). On a reachable server, incrementing one field \<open>f\<close> of a video by \<open>delta\<close>:
  if the video has a live entry, then whatever the outcome every other field of the entry
  and its expiry are unchanged; when \<open>f\<close> is absent (read as 0) or holds a 64-bit integer
  \<open>n\<close>, and \<open>delta\<close> and \<open>n + delta\<close> are in the 64-bit range, the call returns \<open>True\<close>
  and the field becomes \<open>n + delta\<close>. If the video has no live entry, the call returns
  \<open>True\<close> and creates the entry with \<open>delta\<close> as the value of \<open>f\<close>, no other field,
  and no expiry. No other key changes.
\<close>

theorem increment_changes_one_field:
  assumes "up (redis c)"
    and "increment_metrics c now vid [(f, delta)] = (ok, c')"
  shows "(\<forall>e. hash_at (redis c) now (metrics_key c vid) = Some e \<longrightarrow>
            (\<exists>e'. hash_at (redis c') now (metrics_key c vid) = Some e'
                 \<and> expire_at e' = expire_at e
                 \<and> (\<forall>g. g \<noteq> f \<longrightarrow> map_of (hfields e') g = map_of (hfields e) g)))
       \<and> (\<forall>e n. hash_at (redis c) now (metrics_key c vid) = Some e
              \<and> (case map_of (hfields e) f of None \<Rightarrow> n = 0 | Some t \<Rightarrow> t = IntText n \<and> in_i64 n)
              \<and> in_i64 delta \<and> in_i64 (n + delta) \<longrightarrow>
            ok \<and> (\<exists>e'. hash_at (redis c') now (metrics_key c vid) = Some e'
                 \<and> map_of (hfields e') f = Some (IntText (n + delta))))
       \<and> (hash_at (redis c) now (metrics_key c vid) = None \<and> in_i64 delta \<longrightarrow>
            ok \<and> hash_at (redis c') now (metrics_key c vid) =
                   Some \<lparr>hfields = [(f, IntText delta)], expire_at = None\<rparr>)
       \<and> (\<forall>k. k \<noteq> metrics_key c vid \<longrightarrow> hash_at (redis c') now k = hash_at (redis c) now k)
       \<and> prefix c' = prefix c \<and> default_ttl c' = default_ttl c"
proof -
  let ?k = "metrics_key c vid"
  have frame: "\<exists>e'. hash_at (redis c') now ?k = Some e'
                 \<and> expire_at e' = expire_at e
                 \<and> (\<forall>g. g \<noteq> f \<longrightarrow> map_of (hfields e') g = map_of (hfields e) g)"
    if h: "hash_at (redis c) now ?k = Some e" for e
  proof -
    from hincrby_cases[OF h, of f delta] show ?thesis
    proof (elim disjE exE)
      fix err assume "hincrby (redis c) now ?k f delta = Inl err"
      with assms have "c' = c" by (simp add: increment_metrics_def)
      with h show ?thesis by simp
    next
      fix n
      let ?e' = "e\<lparr>hfields := AList.update f (IntText n) (hfields e)\<rparr>"
      assume "hincrby (redis c) now ?k f delta =
                Inr ((redis c)\<lparr>hashes := AList.update ?k ?e' (hashes (redis c))\<rparr>)"
      with assms
      have c': "c' = c\<lparr>redis := (redis c)\<lparr>hashes := AList.update ?k ?e' (hashes (redis c))\<rparr>\<rparr>"
        by (simp add: increment_metrics_def)
      have "live now ?e'" using hash_at_live[OF h] by (simp add: live_def)
      then have "hash_at (redis c') now ?k = Some ?e'"
        by (simp add: c' hash_at_update_same)
      then show ?thesis by (simp add: AList.update_conv')
    qed
  qed
  have "value": "ok \<and> (\<exists>e'. hash_at (redis c') now ?k = Some e'
                 \<and> map_of (hfields e') f = Some (IntText (n + delta)))"
    if h: "hash_at (redis c) now ?k = Some e"
      and cur: "case map_of (hfields e) f of None \<Rightarrow> n = 0 | Some t \<Rightarrow> t = IntText n \<and> in_i64 n"
      and rng: "in_i64 delta" "in_i64 (n + delta)" for e n
  proof -
    let ?e' = "e\<lparr>hfields := AList.update f (IntText (n + delta)) (hfields e)\<rparr>"
    have l: "live now ?e'" using hash_at_live[OF h] by (simp add: live_def)
    from assms have ok: "ok"
      and c': "c' = c\<lparr>redis := (redis c)\<lparr>hashes := AList.update ?k ?e' (hashes (redis c))\<rparr>\<rparr>"
      by (simp_all add: increment_metrics_def hincrby_present[OF h cur rng])
    have "hash_at (redis c') now ?k = Some ?e'"
      by (simp add: c' hash_at_update_same l)
    then show ?thesis using ok by (simp add: AList.update_conv')
  qed
  have absent: "ok \<and> hash_at (redis c') now ?k = Some \<lparr>hfields = [(f, IntText delta)], expire_at = None\<rparr>"
    if h: "hash_at (redis c) now ?k = None" and d: "in_i64 delta"
    using assms
    by (auto simp: increment_metrics_def hincrby_absent[OF h d] hash_at_update_same live_def)
  have others: "hash_at (redis c') now k = hash_at (redis c) now k" if "k \<noteq> ?k" for k
    using assms that
    by (auto simp: increment_metrics_def hincrby_def Let_def hash_at_update_other
        split: option.splits if_splits)
  have same: "prefix c' = prefix c \<and> default_ttl c' = default_ttl c"
    using assms by (auto simp: increment_metrics_def split: prod.splits sum.splits)
  from frame "value" absent others same show ?thesis by blast
qed

lemmas increment_eval = increment_metrics_def hincrby_all.simps hincrby_def in_i64_def

theorem increment_changes_one_field_witness:
  "up (redis cache_stored) \<and> in_i64 5
   \<and> hash_at (redis cache_stored) 120 (metrics_key cache_stored ''v1'') = Some entry_stored
   \<and> map_of (hfields entry_stored) ''views'' = Some (IntText 10) \<and> in_i64 10 \<and> in_i64 (10 + 5)
   \<and> increment_metrics cache_stored 120 ''v1'' [(''views'', 5)] =
        (True, snd (increment_metrics cache_stored 120 ''v1'' [(''views'', 5)]))
   \<and> hash_at (redis (snd (increment_metrics cache_stored 120 ''v1'' [(''views'', 5)]))) 120
        (metrics_key cache_stored ''v1'') =
        Some (entry_stored\<lparr>hfields := (''views'', IntText 15) # tl (hfields entry_stored)\<rparr>)
   \<and> expire_at entry_stored = Some 160
   \<and> up (redis cache0) \<and> hash_at (redis cache0) 0 (metrics_key cache0 ''v1'') = None
   \<and> increment_metrics cache0 0 ''v1'' [(''views'', 5)] =
        (True, snd (increment_metrics cache0 0 ''v1'' [(''views'', 5)]))
   \<and> hash_at (redis (snd (increment_metrics cache0 0 ''v1'' [(''views'', 5)]))) 0
        (metrics_key cache0 ''v1'') = Some \<lparr>hfields = [(''views'', IntText 5)], expire_at = None\<rparr>"
proof -
  have u: "up (redis cache_stored)" "up (redis cache0)" "in_i64 5"
    by (simp_all add: cache_stored_def entry_stored_def cache_eval in_i64_def)
  have s1: "increment_metrics cache_stored 120 ''v1'' [(''views'', 5)] =
        (True, snd (increment_metrics cache_stored 120 ''v1'' [(''views'', 5)]))"
    by (simp add: cache_stored_def entry_stored_def cache_eval increment_eval)
  have s0: "increment_metrics cache0 0 ''v1'' [(''views'', 5)] =
        (True, snd (increment_metrics cache0 0 ''v1'' [(''views'', 5)]))"
    by (simp add: cache_eval increment_eval)
  from increment_changes_one_field[OF u(1) s1] increment_changes_one_field[OF u(2) s0]
    u s1 s0
  show ?thesis
    by (simp add: cache_stored_def entry_stored_def cache_eval increment_eval)
qed

theorem increment_no_expiry_counterexample:
  "default_ttl cache0 = 3600
   \<and> hash_at (redis (snd (increment_metrics cache0 0 ''v1'' [(''views'', 1)]))) 0
        (metrics_key cache0 ''v1'') = Some \<lparr>hfields = [(''views'', IntText 1)], expire_at = None\<rparr>
   \<and> get_video_metrics (snd (increment_metrics cache0 0 ''v1'' [(''views'', 1)])) 4000 ''v1'' =
        Some [(''views'', PInt 1), (''likes'', PInt 0), (''watch_time'', PFloat 0),
              (''unique_users'', PInt 0), (''countries_reached'', PInt 0),
              (''engagement_rate'', PFloat 0), (''avg_watch_time'', PFloat 0)]"
  by (simp add: cache_eval increment_eval)



section \<open>The processing window\<close>

lemma zset_at_zadd: "zset_at (zadd r k m s) k = AList.update m s (zset_at r k)"
  by (simp add: zadd_def zset_at_def AList.update_conv')

lemma zset_at_zremrangebyscore_upto:
  "zset_at (zremrangebyscore_upto r k mx) k = filter (\<lambda>(m, s). \<not> s \<le> mx) (zset_at r k)"
  by (simp add: zremrangebyscore_upto_def Let_def)
     (simp add: zset_at_def AList.update_conv' AList.delete_conv')

lemma up_zadd: "up (zadd r k m s) = up r"
  by (simp add: zadd_def)

lemma up_zremrangebyscore_upto: "up (zremrangebyscore_upto r k mx) = up r"
  by (simp add: zremrangebyscore_upto_def Let_def)

lemma sorted_map_fst:
  fixes xs :: "('a::linorder \<times> 'b::linorder) list"
  shows "sorted xs \<Longrightarrow> sorted (map fst xs)"
  by (induction xs) (auto simp: less_eq_prod_def)

lemma sorted_scores_zrange: "sorted (map snd (zrange_all r k))"
proof -
  let ?f = "\<lambda>(member, score). (score, member)"
  have "sorted (map ?f (zrange_all r k))"
    unfolding zrange_all_def by (rule sorted_sort_key)
  then have "sorted (map fst (map ?f (zrange_all r k)))" by (rule sorted_map_fst)
  moreover have "map fst (map ?f (zrange_all r k)) = map snd (zrange_all r k)"
    by (simp add: case_prod_unfold)
  ultimately show ?thesis by (simp only:)
qed

lemma window_key_eq: "window_key c v = window_key c v' \<longleftrightarrow> v = v'"
  by (simp add: window_key_def get_key_def)

lemma zset_at_zadd_other: "k' \<noteq> k \<Longrightarrow> zset_at (zadd r k m s) k' = zset_at r k'"
  by (simp add: zadd_def zset_at_def AList.update_conv')

lemma zset_at_zremrangebyscore_upto_other:
  "k' \<noteq> k \<Longrightarrow> zset_at (zremrangebyscore_upto r k mx) k' = zset_at r k'"
  by (simp add: zremrangebyscore_upto_def Let_def zset_at_def AList.update_conv'
      AList.delete_conv')

lemma hashes_zadd: "hashes (zadd r k m s) = hashes r"
  by (simp add: zadd_def)

lemma hashes_zremrangebyscore_upto: "hashes (zremrangebyscore_upto r k mx) = hashes r"
  by (simp add: zremrangebyscore_upto_def Let_def)

lemma add_to_processing_window_True:
  assumes "add_to_processing_window c now vid ev ws = (True, c')"
  obtains m s where "up (redis c)" and "json ev = Some m"
    and "zadd_score (case timestamp ev of None \<Rightarrow> PFloat now | Some t \<Rightarrow> t) = Some s"
    and "c' = c\<lparr>redis := zremrangebyscore_upto (zadd (redis c) (window_key c vid) m s)
                            (window_key c vid) (now - of_int ws)\<rparr>"
  using assms
  by (auto simp: add_to_processing_window_def Let_def split: option.splits if_splits)

lemma add_to_processing_window_False:
  assumes "add_to_processing_window c now vid ev ws = (False, c')"
  shows "c' = c"
    and "\<not> (up (redis c) \<and> json ev \<noteq> None
            \<and> zadd_score (case timestamp ev of None \<Rightarrow> PFloat now | Some t \<Rightarrow> t) \<noteq> None)"
  using assms
  by (auto simp: add_to_processing_window_def Let_def split: option.splits if_splits)

lemma window_snapshot_facts:
  "(up (redis c) \<longrightarrow> get_window_events c v = map fst (window_snapshot c v))
   \<and> set (window_snapshot c v) = set (zset_at (redis c) (window_key c v))
   \<and> length (window_snapshot c v) = length (zset_at (redis c) (window_key c v))
   \<and> sorted (map snd (window_snapshot c v))"
proof -
  have a: "up (redis c) \<longrightarrow> get_window_events c v = map fst (window_snapshot c v)"
    by (simp add: get_window_events_def window_snapshot_def)
  have b: "set (window_snapshot c v) = set (zset_at (redis c) (window_key c v))"
    "length (window_snapshot c v) = length (zset_at (redis c) (window_key c v))"
    by (simp_all add: window_snapshot_def zrange_all_def)
  have d: "sorted (map snd (window_snapshot c v))"
    unfolding window_snapshot_def by (rule sorted_scores_zrange)
  show ?thesis by (intro conjI a b d)
qed

lemmas window_eval =
  window_example_def window_three_def event_400_def event_iso_def add_to_processing_window_def
  zadd_score_def zadd_def zremrangebyscore_upto_def zset_at_def window_key_def get_key_def
  cache0_def server0_def Let_def get_window_events_def zrange_all_def

text \<open>
  C9 (amended). An add (at time \<open>now\<close>, with window \<open>window_size\<close>) succeeds exactly when
  the server is reachable, the event can be serialised and its timestamp is a number or
  is missing (it is then stored under \<open>now\<close>); an add that fails returns \<open>False\<close> and
  leaves the cache as it was, evicting nothing. After every add that succeeds, the events
  retained for that video are those of before, with the added event under its timestamp,
  that are later than \<open>now - window_size\<close>: none of them is older than that. No add
  changes the window of another video. A snapshot from a reachable server returns
  exactly the retained events of the video, ordered by timestamp. With events of the
  times 0, 100, 200 and 400, each added at its time with a window of 300, a later
  snapshot returns the events of 200 and 400 only.
\<close>

theorem window_after_add:
  assumes "add_to_processing_window c now vid ev ws = (ok, c')"
  shows "(ok \<longleftrightarrow> up (redis c) \<and> json ev \<noteq> None
                \<and> zadd_score (case timestamp ev of None \<Rightarrow> PFloat now | Some t \<Rightarrow> t) \<noteq> None)
       \<and> (\<not> ok \<longrightarrow> c' = c)
       \<and> (\<forall>m s. ok \<and> json ev = Some m
               \<and> zadd_score (case timestamp ev of None \<Rightarrow> PFloat now | Some t \<Rightarrow> t) = Some s \<longrightarrow>
             set (zset_at (redis c') (window_key c' vid)) =
               {(m', s'). (m', s') \<in> set (AList.update m s (zset_at (redis c) (window_key c vid)))
                         \<and> now - of_int ws < s'})
       \<and> (ok \<longrightarrow> (\<forall>(m, s) \<in> set (zset_at (redis c') (window_key c' vid)). \<not> s < now - of_int ws))
       \<and> (\<forall>v. v \<noteq> vid \<longrightarrow>
             zset_at (redis c') (window_key c' v) = zset_at (redis c) (window_key c v))
       \<and> hashes (redis c') = hashes (redis c) \<and> up (redis c') = up (redis c)
       \<and> prefix c' = prefix c
       \<and> (\<forall>v. (up (redis c') \<longrightarrow> get_window_events c' v = map fst (window_snapshot c' v))
              \<and> set (window_snapshot c' v) = set (zset_at (redis c') (window_key c' v))
              \<and> length (window_snapshot c' v) = length (zset_at (redis c') (window_key c' v))
              \<and> sorted (map snd (window_snapshot c' v)))
       \<and> get_window_events window_example ''v1'' = [''e200'', ''e400'']"
proof (cases ok)
  case False
  with assms have c': "c' = c"
    and n: "\<not> (up (redis c) \<and> json ev \<noteq> None
            \<and> zadd_score (case timestamp ev of None \<Rightarrow> PFloat now | Some t \<Rightarrow> t) \<noteq> None)"
    using add_to_processing_window_False[of c now vid ev ws c'] by simp_all
  let ?ts = "case timestamp ev of None \<Rightarrow> PFloat now | Some t \<Rightarrow> t"
  have iff: "ok \<longleftrightarrow> up (redis c) \<and> json ev \<noteq> None \<and> zadd_score ?ts \<noteq> None"
    using False n by simp
  have failed: "\<not> ok \<longrightarrow> c' = c" using c' by simp
  have retained: "\<forall>m s. ok \<and> json ev = Some m \<and> zadd_score ?ts = Some s \<longrightarrow>
             set (zset_at (redis c') (window_key c' vid)) =
               {(m', s'). (m', s') \<in> set (AList.update m s (zset_at (redis c) (window_key c vid)))
                         \<and> now - of_int ws < s'}"
    using False by simp
  have fresh: "ok \<longrightarrow> (\<forall>(m, s) \<in> set (zset_at (redis c') (window_key c' vid)). \<not> s < now - of_int ws)"
    using False by simp
  have frame: "\<forall>v. v \<noteq> vid \<longrightarrow>
             zset_at (redis c') (window_key c' v) = zset_at (redis c) (window_key c v)"
    by (simp add: c')
  have rest: "hashes (redis c') = hashes (redis c)" "up (redis c') = up (redis c)"
    "prefix c' = prefix c"
    by (simp_all add: c')
  have snap: "\<forall>v. (up (redis c') \<longrightarrow> get_window_events c' v = map fst (window_snapshot c' v))
              \<and> set (window_snapshot c' v) = set (zset_at (redis c') (window_key c' v))
              \<and> length (window_snapshot c' v) = length (zset_at (redis c') (window_key c' v))
              \<and> sorted (map snd (window_snapshot c' v))"
    by (intro allI window_snapshot_facts)
  have example: "get_window_events window_example ''v1'' = [''e200'', ''e400'']"
    by (simp add: window_eval)
  show ?thesis
    by (intro conjI iff failed retained fresh frame rest snap example)
next
  case True
  let ?k = "window_key c vid"
  let ?ts = "case timestamp ev of None \<Rightarrow> PFloat now | Some t \<Rightarrow> t"
  from assms True obtain m0 s0 where up: "up (redis c)" and j: "json ev = Some m0"
    and sc: "zadd_score ?ts = Some s0"
    and c': "c' = c\<lparr>redis := zremrangebyscore_upto (zadd (redis c) ?k m0 s0) ?k (now - of_int ws)\<rparr>"
    using add_to_processing_window_True[of c now vid ev ws c'] by auto
  have k': "window_key c' v = window_key c v" for v
    by (simp add: c' window_key_def get_key_def)
  have z: "zset_at (redis c') ?k =
             filter (\<lambda>(m, s). \<not> s \<le> now - of_int ws) (AList.update m0 s0 (zset_at (redis c) ?k))"
    by (simp add: c' zset_at_zremrangebyscore_upto zset_at_zadd)
  have iff: "ok \<longleftrightarrow> up (redis c) \<and> json ev \<noteq> None \<and> zadd_score ?ts \<noteq> None"
    using True up j sc by simp
  have failed: "\<not> ok \<longrightarrow> c' = c" using True by simp
  have retained: "\<forall>m s. ok \<and> json ev = Some m \<and> zadd_score ?ts = Some s \<longrightarrow>
             set (zset_at (redis c') (window_key c' vid)) =
               {(m', s'). (m', s') \<in> set (AList.update m s (zset_at (redis c) ?k))
                         \<and> now - of_int ws < s'}"
    unfolding k' z using j sc by auto
  have fresh: "ok \<longrightarrow> (\<forall>(m, s) \<in> set (zset_at (redis c') (window_key c' vid)). \<not> s < now - of_int ws)"
    unfolding k' z by auto
  have frame: "\<forall>v. v \<noteq> vid \<longrightarrow>
             zset_at (redis c') (window_key c' v) = zset_at (redis c) (window_key c v)"
    unfolding k'
    by (simp add: c' window_key_eq zset_at_zremrangebyscore_upto_other zset_at_zadd_other)
  have rest: "hashes (redis c') = hashes (redis c)" "up (redis c') = up (redis c)"
    "prefix c' = prefix c"
    by (simp_all add: c' hashes_zremrangebyscore_upto hashes_zadd up_zremrangebyscore_upto up_zadd)
  have snap: "\<forall>v. (up (redis c') \<longrightarrow> get_window_events c' v = map fst (window_snapshot c' v))
              \<and> set (window_snapshot c' v) = set (zset_at (redis c') (window_key c' v))
              \<and> length (window_snapshot c' v) = length (zset_at (redis c') (window_key c' v))
              \<and> sorted (map snd (window_snapshot c' v))"
    by (intro allI window_snapshot_facts)
  have example: "get_window_events window_example ''v1'' = [''e200'', ''e400'']"
    by (simp add: window_eval)
  show ?thesis
    by (intro conjI iff failed retained fresh frame rest snap example)
qed

theorem window_after_add_witness:
  "get_window_events window_three ''v1'' = [''e0'', ''e100'', ''e200'']
   \<and> get_window_events window_three ''v2'' = [''f50'']
   \<and> add_to_processing_window window_three 400 ''v1'' event_400 300 = (True, window_example)
   \<and> up (redis window_three) \<and> json event_400 = Some ''e400''
   \<and> zadd_score (case timestamp event_400 of None \<Rightarrow> PFloat 400 | Some t \<Rightarrow> t) = Some 400
   \<and> zset_at (redis window_example) (window_key window_example ''v1'') =
       [(''e200'', 200), (''e400'', 400)]
   \<and> window_snapshot window_example ''v1'' = [(''e200'', 200), (''e400'', 400)]
   \<and> get_window_events window_example ''v1'' = [''e200'', ''e400'']
   \<and> ''v2'' \<noteq> ''v1''
   \<and> zset_at (redis window_example) (window_key window_example ''v2'') =
       zset_at (redis window_three) (window_key window_three ''v2'')
   \<and> get_window_events window_example ''v2'' = [''f50'']
   \<and> add_to_processing_window window_example 1000 ''v1'' event_iso 300 = (False, window_example)"
proof -
  have u: "up (redis window_three)" by (simp add: window_eval)
  have b: "get_window_events window_three ''v1'' = [''e0'', ''e100'', ''e200'']"
    "get_window_events window_three ''v2'' = [''f50'']"
    by (simp_all add: window_eval)
  have a: "add_to_processing_window window_three 400 ''v1'' event_400 300 = (True, window_example)"
    unfolding window_example_def using u
    by (simp add: add_to_processing_window_def Let_def event_400_def zadd_score_def)
  have e: "json event_400 = Some ''e400''"
    "zadd_score (case timestamp event_400 of None \<Rightarrow> PFloat 400 | Some t \<Rightarrow> t) = Some 400"
    "''v2'' \<noteq> ''v1''"
    by (simp_all add: event_400_def zadd_score_def)
  have z: "zset_at (redis window_example) (window_key window_example ''v1'') =
       [(''e200'', 200), (''e400'', 400)]"
    by (simp add: window_eval)
  have s: "window_snapshot window_example ''v1'' = [(''e200'', 200), (''e400'', 400)]"
    by (simp add: window_eval window_snapshot_def)
  note w = window_after_add[OF a]
  from w have sn: "\<forall>v. (up (redis window_example) \<longrightarrow>
                get_window_events window_example v = map fst (window_snapshot window_example v))
              \<and> set (window_snapshot window_example v) =
                  set (zset_at (redis window_example) (window_key window_example v))
              \<and> length (window_snapshot window_example v) =
                  length (zset_at (redis window_example) (window_key window_example v))
              \<and> sorted (map snd (window_snapshot window_example v))"
    by (elim conjE)
  from w have u': "up (redis window_example) = up (redis window_three)"
    by (elim conjE)
  from sn have "up (redis window_example) \<longrightarrow>
      get_window_events window_example ''v1'' = map fst (window_snapshot window_example ''v1'')"
    by (elim allE conjE)
  then have g': "get_window_events window_example ''v1'' = [''e200'', ''e400'']"
    using u u' unfolding s by simp
  from w have fr: "\<forall>v. v \<noteq> ''v1'' \<longrightarrow>
      zset_at (redis window_example) (window_key window_example v) =
      zset_at (redis window_three) (window_key window_three v)"
    by (elim conjE)
  then have f: "zset_at (redis window_example) (window_key window_example ''v2'') =
       zset_at (redis window_three) (window_key window_three ''v2'')"
    using e(3) by (elim allE impE)
  have f': "get_window_events window_example ''v2'' = [''f50'']"
    by (simp add: window_eval)
  have i: "add_to_processing_window window_example 1000 ''v1'' event_iso 300 = (False, window_example)"
    by (simp add: add_to_processing_window_def Let_def event_iso_def zadd_score_def)
  from window_after_add[OF i] have i': "\<not> False \<longrightarrow> window_example = window_example"
    by (elim conjE)
  show ?thesis
    using i' by (intro conjI b a u e z s g' f f' i)
qed

theorem window_failed_add_counterexample:
  "add_to_processing_window window_three 1000 ''v1'' event_iso 300 = (False, window_three)
   \<and> up (redis window_three)
   \<and> window_snapshot window_three ''v1'' = [(''e0'', 0), (''e100'', 100), (''e200'', 200)]
   \<and> get_window_events window_three ''v1'' = [''e0'', ''e100'', ''e200'']
   \<and> (0::rat) < 1000 - 300"
  by (simp add: window_eval window_snapshot_def)


section \<open>The resolver\<close>

lemma service_hit:
  assumes "get_video_metrics (cache s) now vid = Some m"
  shows "service_get_video_metrics s now vid = (Inr m, cache s)"
proof -
  from get_video_metrics_SomeD[OF assms] have "m \<noteq> []" by auto
  then show ?thesis
    by (simp add: service_get_video_metrics_def service_get_video_metrics_try_def assms)
qed

lemma service_fallback:
  assumes "get_video_metrics (cache s) now vid = None"
    and "bigquery s = Some bq"
    and "bq vid (now - 300) now (case config_events_table s of None \<Rightarrow> ''raw_events'' | Some t \<Rightarrow> t)
           = Inr (Some m)"
    and "m \<noteq> []"
  shows "service_get_video_metrics s now vid =
           (Inr m, snd (set_video_metrics (cache s) now vid m None))"
  using assms
  by (simp add: service_get_video_metrics_def service_get_video_metrics_try_def Let_def)

lemma service_fallback_cached:
  assumes "get_video_metrics (cache s) now vid = None"
    and "bigquery s = Some bq"
    and "bq vid (now - 300) now (case config_events_table s of None \<Rightarrow> ''raw_events'' | Some t \<Rightarrow> t)
           = Inr (Some m)"
    and "is_metrics_record m" and "up (redis (cache s))"
    and "0 < default_ttl (cache s)" and "t < now + of_int (default_ttl (cache s))"
  shows "\<exists>r. get_video_metrics (snd (service_get_video_metrics s now vid)) t vid = Some r
            \<and> map_of r = map_of m"
proof -
  let ?c = "cache s"
  let ?k = "metrics_key ?c vid"
  let ?ms = "map (\<lambda>(k, v). (k, py_str v)) m"
  have ne: "m \<noteq> []" using assms(4) by (rule is_metrics_recordD) auto
  let ?c' = "?c\<lparr>redis := expire (hmset (redis ?c) now ?k ?ms) now ?k (default_ttl ?c)\<rparr>"
  have c': "snd (service_get_video_metrics s now vid) = ?c'"
    by (simp add: service_fallback[OF assms(1,2,3) ne] set_video_metrics_up[OF assms(5) ne]
        ttl_or_default_def)
  have k': "metrics_key ?c' vid = ?k" by (simp add: metrics_key_def get_key_def)
  have h: "hgetall (redis ?c') t ?k = Inr (fold (\<lambda>(f, v). AList.update f v) ?ms
            (case hash_at (redis ?c) now ?k of None \<Rightarrow> [] | Some e \<Rightarrow> hfields e))"
    using assms(5,6,7) by (simp add: hgetall_def expire_hmset_hash_at)
  show ?thesis
    unfolding c' by (rule metrics_record_roundtrip[OF assms(4) h refl k'])
qed

lemma service_fallback_example:
  "fst (service_get_video_metrics service_record0 1000 ''v1'') = Inr record0
   \<and> map_of record0 ''engagement_rate'' = Some (PFloat (1 / 5))
   \<and> get_video_metrics (snd (service_get_video_metrics service_record0 1000 ''v1'')) 1000 ''v1''
       = Some record0"
  by (simp add: service_get_video_metrics_def service_get_video_metrics_try_def
      service_record0_def bq_record0_def cache_eval)

text \<open>
  C1. With an empty cache and a warehouse that has no rows for the video, the body of
  \<open>get_video_metrics\<close> raises the 404 "Video metrics not found"; the enclosing
  \<open>except Exception\<close> catches it and the caller receives a 500, not NotFound.
\<close>

theorem service_not_found_becomes_500:
  "get_video_metrics (cache service_no_rows) 1000 ''v1'' = None
   \<and> fst (service_get_video_metrics_try service_no_rows 1000 ''v1'') = Inl (HTTPException 404)
   \<and> fst (service_get_video_metrics service_no_rows 1000 ''v1'') = Inl (HTTPException 500)"
  by (simp add: service_get_video_metrics_def service_get_video_metrics_try_def
      service_no_rows_def bq_no_rows_def cache_eval)



section \<open>Trending videos\<close>

lemma set_py_sort_reverse: "set (py_sort_reverse f xs) = set xs"
  by (simp add: py_sort_reverse_def)

lemma sorted_py_sort_reverse:
  "sorted_wrt (\<lambda>a b. f b \<le> f a) (py_sort_reverse f xs)"
proof -
  have "sorted (map f (sort_key f (rev xs)))" by (rule sorted_sort_key)
  then have "sorted_wrt (\<lambda>a b. f a \<le> f b) (sort_key f (rev xs))"
    by (simp add: sorted_map)
  then show ?thesis
    by (simp add: py_sort_reverse_def sorted_wrt_rev)
qed

lemma stable_py_sort_reverse:
  "filter (\<lambda>v. f v = q) (py_sort_reverse f xs) = filter (\<lambda>v. f v = q) xs"
proof -
  have "filter (\<lambda>v. f v = q) (sort_key f (rev xs)) = filter (\<lambda>v. f v = q) (rev xs)"
    by (rule sort_key_stable)
  then show ?thesis
    by (simp add: py_sort_reverse_def rev_filter[symmetric])
qed

lemma py_slice_to_take: "\<exists>n. py_slice_to xs limit = take n xs"
  by (auto simp: py_slice_to_def)

lemma collect_videos_origin:
  assumes "collect_videos kms = Some vs" and "v \<in> set vs"
  shows "\<exists>key ms. (key, ms) \<in> set kms \<and> ms \<noteq> []
           \<and> py_index (py_split CHR '':'' key) 1 = Some (tr_video_id v)
           \<and> get_int ms ''views'' = Some (tr_views v)
           \<and> get_int ms ''likes'' = Some (tr_likes v)
           \<and> get_float ms ''engagement_rate'' = Some (tr_engagement_rate v)"
  using assms
proof (induction kms arbitrary: vs)
  case Nil
  then show ?case by simp
next
  case (Cons a kms)
  obtain key ms where a: "a = (key, ms)" by (cases a)
  show ?case
  proof (cases "ms = []")
    case True
    with Cons.prems a have "collect_videos kms = Some vs" by simp
    from Cons.IH[OF this Cons.prems(2)] show ?thesis by auto
  next
    case False
    with Cons.prems(1) a obtain vid vw lk er rest where
      p: "py_index (py_split CHR '':'' key) 1 = Some vid" "get_int ms ''views'' = Some vw"
         "get_int ms ''likes'' = Some lk" "get_float ms ''engagement_rate'' = Some er"
         "collect_videos kms = Some rest"
      and vs: "vs = \<lparr>tr_video_id = vid, tr_views = vw, tr_likes = lk, tr_engagement_rate = er\<rparr> # rest"
      by (auto split: Option.bind_splits)
    show ?thesis
    proof (cases "v \<in> set rest")
      case True
      from Cons.IH[OF p(5) True] show ?thesis by auto
    next
      case False
      with Cons.prems(2) vs
      have "v = \<lparr>tr_video_id = vid, tr_views = vw, tr_likes = lk, tr_engagement_rate = er\<rparr>"
        by simp
      with p \<open>ms \<noteq> []\<close> a show ?thesis by auto
    qed
  qed
qed

lemma trending_candidates_origin:
  assumes "trending_candidates s now = Inr cands" and "v \<in> set cands"
  shows "\<exists>key e. hash_at (redis (cache s)) now key = Some e
           \<and> glob (prefix (cache s) @ ''video:*:metrics'') key
           \<and> py_index (py_split CHR '':'' key) 1 = Some (tr_video_id v)
           \<and> get_int (hfields e) ''views'' = Some (tr_views v)
           \<and> get_int (hfields e) ''likes'' = Some (tr_likes v)
           \<and> get_float (hfields e) ''engagement_rate'' = Some (tr_engagement_rate v)"
proof -
  let ?r = "redis (cache s)"
  let ?p = "prefix (cache s) @ ''video:*:metrics''"
  let ?g = "\<lambda>key. case hash_at ?r now key of None \<Rightarrow> [] | Some e \<Rightarrow> hfields e"
  from assms(1) obtain ks where ks: "keys ?r now ?p = Inr ks"
    by (auto simp: trending_candidates_def split: sum.splits)
  have ne: "ks \<noteq> []" using assms ks by (auto simp: trending_candidates_def)
  from assms(1) ks ne have cv: "collect_videos (zip ks (map ?g ks)) = Some cands"
    by (auto simp: trending_candidates_def Let_def split: option.splits)
  from collect_videos_origin[OF cv assms(2)] obtain key ms where
    km: "(key, ms) \<in> set (zip ks (map ?g ks))" "ms \<noteq> []"
    and p: "py_index (py_split CHR '':'' key) 1 = Some (tr_video_id v)"
      "get_int ms ''views'' = Some (tr_views v)" "get_int ms ''likes'' = Some (tr_likes v)"
      "get_float ms ''engagement_rate'' = Some (tr_engagement_rate v)"
    by blast
  from km(1) have k: "key \<in> set ks" and ms: "ms = ?g key"
    by (auto simp: set_zip)
  from ms km(2) obtain e where e: "hash_at ?r now key = Some e" "ms = hfields e"
    by (auto split: option.splits)
  from ks k have "glob ?p key"
    by (auto simp: keys_def split: if_splits)
  with e p show ?thesis by blast
qed


lemma zip_map_self: "zip ks (map g ks) = map (\<lambda>k. (k, g k)) ks"
  by (induction ks) auto

lemma collect_videos_list_all2:
  assumes "collect_videos kms = Some vs"
  shows "list_all2
           (\<lambda>v (key, ms). py_index (py_split CHR '':'' key) 1 = Some (tr_video_id v)
              \<and> get_int ms ''views'' = Some (tr_views v)
              \<and> get_int ms ''likes'' = Some (tr_likes v)
              \<and> get_float ms ''engagement_rate'' = Some (tr_engagement_rate v))
           vs (filter (\<lambda>(key, ms). ms \<noteq> []) kms)"
  using assms
proof (induction kms arbitrary: vs)
  case Nil
  then show ?case by simp
next
  case (Cons a kms)
  obtain key ms where a: "a = (key, ms)" by (cases a)
  show ?case
  proof (cases "ms = []")
    case True
    with Cons.prems a have "collect_videos kms = Some vs" by simp
    from Cons.IH[OF this] show ?thesis by (simp add: a True)
  next
    case False
    with Cons.prems a obtain vid vw lk er rest where
      p: "py_index (py_split CHR '':'' key) 1 = Some vid" "get_int ms ''views'' = Some vw"
         "get_int ms ''likes'' = Some lk" "get_float ms ''engagement_rate'' = Some er"
         "collect_videos kms = Some rest"
      and vs: "vs = \<lparr>tr_video_id = vid, tr_views = vw, tr_likes = lk, tr_engagement_rate = er\<rparr> # rest"
      by (auto split: Option.bind_splits)
    from Cons.IH[OF p(5)] p(1-4) show ?thesis by (simp add: a False vs)
  qed
qed

lemma trending_candidates_listing:
  assumes "trending_candidates s now = Inr cands"
  shows "\<exists>ks. keys (redis (cache s)) now (prefix (cache s) @ ''video:*:metrics'') = Inr ks
       \<and> list_all2
           (\<lambda>v key. \<exists>ms. hgetall (redis (cache s)) now key = Inr ms
              \<and> py_index (py_split CHR '':'' key) 1 = Some (tr_video_id v)
              \<and> get_int ms ''views'' = Some (tr_views v)
              \<and> get_int ms ''likes'' = Some (tr_likes v)
              \<and> get_float ms ''engagement_rate'' = Some (tr_engagement_rate v))
           cands (filter (\<lambda>key. hgetall (redis (cache s)) now key \<noteq> Inr []) ks)"
proof -
  let ?r = "redis (cache s)"
  let ?g = "\<lambda>key. case hash_at ?r now key of None \<Rightarrow> [] | Some e \<Rightarrow> hfields e"
  let ?P = "\<lambda>v (key, ms). py_index (py_split CHR '':'' key) 1 = Some (tr_video_id v)
              \<and> get_int ms ''views'' = Some (tr_views v)
              \<and> get_int ms ''likes'' = Some (tr_likes v)
              \<and> get_float ms ''engagement_rate'' = Some (tr_engagement_rate v)"
  from assms obtain ks where ks: "keys ?r now (prefix (cache s) @ ''video:*:metrics'') = Inr ks"
    by (auto simp: trending_candidates_def split: sum.splits)
  then have up: "up ?r" by (auto simp: keys_def split: if_splits)
  then have h: "hgetall ?r now key = Inr (?g key)" for key
    by (simp add: hgetall_def)
  have cv: "collect_videos (zip ks (map ?g ks)) = Some cands"
  proof (cases "ks = []")
    case True
    with assms ks show ?thesis by (simp add: trending_candidates_def)
  next
    case False
    with assms ks show ?thesis
      by (auto simp: trending_candidates_def Let_def split: option.splits)
  qed
  have "list_all2 ?P cands (filter (\<lambda>(key, ms). ms \<noteq> []) (map (\<lambda>k. (k, ?g k)) ks))"
    using collect_videos_list_all2[OF cv] by (simp only: zip_map_self)
  then have "list_all2 (\<lambda>v k. ?P v (k, ?g k)) cands (filter (\<lambda>k. ?g k \<noteq> []) ks)"
    by (simp add: filter_map comp_def list_all2_map2)
  then have "list_all2
           (\<lambda>v key. \<exists>ms. hgetall ?r now key = Inr ms
              \<and> py_index (py_split CHR '':'' key) 1 = Some (tr_video_id v)
              \<and> get_int ms ''views'' = Some (tr_views v)
              \<and> get_int ms ''likes'' = Some (tr_likes v)
              \<and> get_float ms ''engagement_rate'' = Some (tr_engagement_rate v))
           cands (filter (\<lambda>key. hgetall ?r now key \<noteq> Inr []) ks)"
    by (simp add: h)
  with ks show ?thesis by blast
qed

lemma length_py_sort_reverse: "length (py_sort_reverse f xs) = length xs"
  by (simp add: py_sort_reverse_def)

lemma length_py_slice_to:
  "length (py_slice_to xs limit) =
     (if 0 \<le> limit then min (nat limit) (length xs) else nat (int (length xs) + limit))"
  by (auto simp: py_slice_to_def)

text \<open>
  C5 (amended). For every cache state and every limit, when \<open>trending(limit)\<close> returns:
  its candidates are the live cache entries under the keys matching
  \<open>prefix + video:*:metrics\<close>, one for each non-empty hash and in the order in which the
  server lists the keys, with the views, likes and engagement rate read from that entry;
  the result is the beginning of the candidates sorted by engagement rate, descending,
  where entries of equal engagement rate stay in the order of the candidates (the view
  count plays no part); it has \<open>min(limit, n)\<close> entries of the \<open>n\<close> candidates for
  \<open>limit \<ge> 0\<close>, hence at most \<open>limit\<close>, and for a negative limit all but the last
  \<open>-limit\<close>.
\<close>

theorem trending_order:
  assumes "get_trending_videos s now limit = Inr vs"
  shows "\<exists>ks cands rest.
         keys (redis (cache s)) now (prefix (cache s) @ ''video:*:metrics'') = Inr ks
       \<and> trending_candidates s now = Inr cands
       \<and> list_all2
           (\<lambda>v key. \<exists>ms. hgetall (redis (cache s)) now key = Inr ms
              \<and> py_index (py_split CHR '':'' key) 1 = Some (tr_video_id v)
              \<and> get_int ms ''views'' = Some (tr_views v)
              \<and> get_int ms ''likes'' = Some (tr_likes v)
              \<and> get_float ms ''engagement_rate'' = Some (tr_engagement_rate v))
           cands (filter (\<lambda>key. hgetall (redis (cache s)) now key \<noteq> Inr []) ks)
       \<and> length (vs @ rest) = length cands \<and> set (vs @ rest) = set cands
       \<and> sorted_wrt (\<lambda>a b. tr_engagement_rate b \<le> tr_engagement_rate a) (vs @ rest)
       \<and> (\<forall>q. filter (\<lambda>v. tr_engagement_rate v = q) (vs @ rest) =
                filter (\<lambda>v. tr_engagement_rate v = q) cands)
       \<and> length vs = (if 0 \<le> limit then min (nat limit) (length cands)
                       else nat (int (length cands) + limit))
       \<and> (0 \<le> limit \<longrightarrow> int (length vs) \<le> limit)
       \<and> set vs \<subseteq> set cands
       \<and> sorted_wrt (\<lambda>a b. tr_engagement_rate b \<le> tr_engagement_rate a) vs
       \<and> (\<forall>v \<in> set cands. \<exists>key e.
             hash_at (redis (cache s)) now key = Some e
           \<and> glob (prefix (cache s) @ ''video:*:metrics'') key
           \<and> py_index (py_split CHR '':'' key) 1 = Some (tr_video_id v)
           \<and> get_int (hfields e) ''views'' = Some (tr_views v)
           \<and> get_int (hfields e) ''likes'' = Some (tr_likes v)
           \<and> get_float (hfields e) ''engagement_rate'' = Some (tr_engagement_rate v))"
proof -
  from assms obtain cands where c: "trending_candidates s now = Inr cands"
    and vs: "vs = py_slice_to (py_sort_reverse tr_engagement_rate cands) limit"
    by (auto simp: get_trending_videos_def split: sum.splits)
  let ?sorted = "py_sort_reverse tr_engagement_rate cands"
  obtain n where n: "vs = take n ?sorted"
    using py_slice_to_take[of ?sorted limit] vs by auto
  define rest where "rest = drop n ?sorted"
  have whole: "vs @ rest = ?sorted" by (simp add: n rest_def)
  from trending_candidates_listing[OF c] obtain ks where
    ks: "keys (redis (cache s)) now (prefix (cache s) @ ''video:*:metrics'') = Inr ks"
    and listing: "list_all2
           (\<lambda>v key. \<exists>ms. hgetall (redis (cache s)) now key = Inr ms
              \<and> py_index (py_split CHR '':'' key) 1 = Some (tr_video_id v)
              \<and> get_int ms ''views'' = Some (tr_views v)
              \<and> get_int ms ''likes'' = Some (tr_likes v)
              \<and> get_float ms ''engagement_rate'' = Some (tr_engagement_rate v))
           cands (filter (\<lambda>key. hgetall (redis (cache s)) now key \<noteq> Inr []) ks)"
    by blast
  have all: "length (vs @ rest) = length cands" "set (vs @ rest) = set cands"
    unfolding whole by (simp_all add: length_py_sort_reverse set_py_sort_reverse)
  have ord_all: "sorted_wrt (\<lambda>a b. tr_engagement_rate b \<le> tr_engagement_rate a) (vs @ rest)"
    unfolding whole by (rule sorted_py_sort_reverse)
  have ties: "\<forall>q. filter (\<lambda>v. tr_engagement_rate v = q) (vs @ rest) =
                filter (\<lambda>v. tr_engagement_rate v = q) cands"
    unfolding whole by (simp add: stable_py_sort_reverse)
  have count: "length vs = (if 0 \<le> limit then min (nat limit) (length cands)
                       else nat (int (length cands) + limit))"
    unfolding vs by (simp only: length_py_slice_to length_py_sort_reverse)
  have len: "0 \<le> limit \<longrightarrow> int (length vs) \<le> limit"
    by (auto simp: vs py_slice_to_def)
  have sub: "set vs \<subseteq> set cands"
    using set_take_subset[of n ?sorted] by (simp add: n set_py_sort_reverse)
  have ord: "sorted_wrt (\<lambda>a b. tr_engagement_rate b \<le> tr_engagement_rate a) vs"
    unfolding n by (rule sorted_wrt_take[OF sorted_py_sort_reverse])
  have origin: "\<forall>v \<in> set cands. \<exists>key e.
             hash_at (redis (cache s)) now key = Some e
           \<and> glob (prefix (cache s) @ ''video:*:metrics'') key
           \<and> py_index (py_split CHR '':'' key) 1 = Some (tr_video_id v)
           \<and> get_int (hfields e) ''views'' = Some (tr_views v)
           \<and> get_int (hfields e) ''likes'' = Some (tr_likes v)
           \<and> get_float (hfields e) ''engagement_rate'' = Some (tr_engagement_rate v)"
    using trending_candidates_origin[OF c] by blast
  show ?thesis
    by (intro exI[of _ ks] exI[of _ cands] exI[of _ rest] conjI
        ks c listing all ord_all ties count len sub ord origin)
qed

lemmas trending_eval =
  get_trending_videos_def trending_candidates_def keys_def service_trending_def
  cache_trending_def cache0_def server0_def hash_at_def live_def py_index_def get_int_def
  get_float_def py_sort_reverse_def py_slice_to_def Let_def

theorem trending_order_witness:
  "get_trending_videos service_trending 0 2 =
     Inr [\<lparr>tr_video_id = ''video'', tr_views = 5, tr_likes = 4, tr_engagement_rate = 9 / 10\<rparr>,
          \<lparr>tr_video_id = ''video'', tr_views = 8, tr_likes = 7, tr_engagement_rate = 9 / 10\<rparr>]
   \<and> get_trending_videos service_trending 0 (- 1) =
     Inr [\<lparr>tr_video_id = ''video'', tr_views = 5, tr_likes = 4, tr_engagement_rate = 9 / 10\<rparr>,
          \<lparr>tr_video_id = ''video'', tr_views = 8, tr_likes = 7, tr_engagement_rate = 9 / 10\<rparr>]
   \<and> keys (redis (cache service_trending)) 0 (prefix (cache service_trending) @ ''video:*:metrics'')
       = Inr [''yt:video:a:metrics'', ''yt:video:b:metrics'', ''yt:video:c:metrics'']
   \<and> trending_candidates service_trending 0 =
     Inr [\<lparr>tr_video_id = ''video'', tr_views = 10, tr_likes = 5, tr_engagement_rate = 1 / 2\<rparr>,
          \<lparr>tr_video_id = ''video'', tr_views = 5, tr_likes = 4, tr_engagement_rate = 9 / 10\<rparr>,
          \<lparr>tr_video_id = ''video'', tr_views = 8, tr_likes = 7, tr_engagement_rate = 9 / 10\<rparr>]
   \<and> (0::int) \<le> 2
   \<and> sorted_wrt (\<lambda>a b. tr_engagement_rate b \<le> tr_engagement_rate a)
       [\<lparr>tr_video_id = ''video'', tr_views = 5, tr_likes = 4, tr_engagement_rate = 9 / 10\<rparr>,
        \<lparr>tr_video_id = ''video'', tr_views = 8, tr_likes = 7, tr_engagement_rate = 9 / 10\<rparr>]"
proof -
  have k: "keys (redis (cache service_trending)) 0 (prefix (cache service_trending) @ ''video:*:metrics'')
       = Inr [''yt:video:a:metrics'', ''yt:video:b:metrics'', ''yt:video:c:metrics'']"
    by (simp add: keys_def service_trending_def cache_trending_def cache0_def server0_def
        live_def)
  have c: "trending_candidates service_trending 0 =
     Inr [\<lparr>tr_video_id = ''video'', tr_views = 10, tr_likes = 5, tr_engagement_rate = 1 / 2\<rparr>,
          \<lparr>tr_video_id = ''video'', tr_views = 5, tr_likes = 4, tr_engagement_rate = 9 / 10\<rparr>,
          \<lparr>tr_video_id = ''video'', tr_views = 8, tr_likes = 7, tr_engagement_rate = 9 / 10\<rparr>]"
    by (simp add: trending_eval)
  have g: "get_trending_videos service_trending 0 2 =
     Inr [\<lparr>tr_video_id = ''video'', tr_views = 5, tr_likes = 4, tr_engagement_rate = 9 / 10\<rparr>,
          \<lparr>tr_video_id = ''video'', tr_views = 8, tr_likes = 7, tr_engagement_rate = 9 / 10\<rparr>]"
    by (simp add: get_trending_videos_def c py_sort_reverse_def py_slice_to_def)
  have g': "get_trending_videos service_trending 0 (- 1) =
     Inr [\<lparr>tr_video_id = ''video'', tr_views = 5, tr_likes = 4, tr_engagement_rate = 9 / 10\<rparr>,
          \<lparr>tr_video_id = ''video'', tr_views = 8, tr_likes = 7, tr_engagement_rate = 9 / 10\<rparr>]"
    by (simp add: get_trending_videos_def c py_sort_reverse_def py_slice_to_def)
  from trending_order[OF g]
  have o: "sorted_wrt (\<lambda>a b. tr_engagement_rate b \<le> tr_engagement_rate a)
       [\<lparr>tr_video_id = ''video'', tr_views = 5, tr_likes = 4, tr_engagement_rate = 9 / 10\<rparr>,
        \<lparr>tr_video_id = ''video'', tr_views = 8, tr_likes = 7, tr_engagement_rate = 9 / 10\<rparr>]"
    by (elim exE conjE)
  have z: "(0::int) \<le> 2" by simp
  show ?thesis by (intro conjI g g' k c z o)
qed

theorem trending_ties_counterexample:
  "map (\<lambda>v. (tr_engagement_rate v, tr_views v))
     (case get_trending_videos service_trending 0 2 of Inl e \<Rightarrow> [] | Inr vs \<Rightarrow> vs) =
   [(9 / 10, 5), (9 / 10, 8)]
   \<and> length (case get_trending_videos service_trending 0 (- 1) of Inl e \<Rightarrow> [] | Inr vs \<Rightarrow> vs) = 2"
  by (simp add: trending_eval)

section \<open>The rollup jobs\<close>

lemma update_fresh: "k \<notin> fst ` set al \<Longrightarrow> AList.update k v al = al @ [(k, v)]"
  by (induction al) auto

lemma fold_update_distinct:
  assumes "distinct (map k xs)" and "set (map k xs) \<inter> fst ` set acc = {}"
  shows "fold (\<lambda>x. AList.update (k x) (v x)) xs acc = acc @ map (\<lambda>x. (k x, v x)) xs"
  using assms
proof (induction xs arbitrary: acc)
  case Nil
  show ?case by simp
next
  case (Cons x xs)
  from Cons.prems have f: "k x \<notin> fst ` set acc" by auto
  have "set (map k xs) \<inter> fst ` set (acc @ [(k x, v x)]) = {}"
    using Cons.prems by auto
  with Cons.IH[of "acc @ [(k x, v x)]"] Cons.prems(1)
  show ?case by (simp add: update_fresh[OF f])
qed

text \<open>The rows one run of each job inserts.\<close>

lemma hourly_query_distinct: "distinct (map q_video_id (hourly_query tbl a b))"
  by (simp add: hourly_query_def Let_def comp_def hourly_query_row_def)

lemma hourly_query_videos:
  "set (map q_video_id (hourly_query tbl a b)) =
     video_id ` {e \<in> set tbl. a \<le> event_timestamp e \<and> event_timestamp e < b}"
  by (auto simp: hourly_query_def Let_def comp_def hourly_query_row_def)

lemma process_aggregation_results_keys:
  assumes "distinct (map q_video_id df)"
  shows "map fst (process_aggregation_results df ts) = map q_video_id df"
  and "\<forall>x \<in> set (process_aggregation_results df ts). fst (snd x) = ts"
  unfolding process_aggregation_results_def
  by (simp_all add: fold_update_distinct[OF assms] comp_def)

lemma count_one_of_distinct:
  assumes "distinct (map f xs)" and "v \<in> f ` set xs"
  shows "length (filter (\<lambda>x. f x = v) xs) = 1"
  using assms
proof (induction xs)
  case Nil
  then show ?case by simp
next
  case (Cons x xs)
  show ?case
  proof (cases "f x = v")
    case True
    with Cons.prems(1) have "v \<notin> f ` set xs" by simp
    then have "\<forall>y \<in> set xs. f y \<noteq> v" by blast
    then have "filter (\<lambda>x. f x = v) xs = []" by (simp add: filter_empty_conv)
    with True show ?thesis by simp
  next
    case False
    with Cons show ?thesis by auto
  qed
qed

lemma hourly_rollup_InrD:
  assumes "hourly_rollup w ts = Inr w1"
  defines "rows \<equiv>
     map (\<lambda>(v, t, m). agg_metrics.extend m \<lparr>row_video_id = v, row_timestamp = t\<rparr>)
       (process_aggregation_results
          (hourly_query (raw_events w) (hour_start_of ts) (hour_start_of ts + 3600))
          (hour_start_of ts))"
  shows "bq_up w" and "rows \<noteq> []" and "w1 = w\<lparr>hourly_metrics := hourly_metrics w @ rows\<rparr>"
  using assms(1) unfolding rows_def
  by (auto simp: hourly_rollup_def process_hourly_aggregation_def save_aggregations_def Let_def
      split: if_splits sum.splits)

lemma hourly_rollup_again:
  assumes "hourly_rollup w ts = Inr w1"
  shows "\<exists>rows. w1 = w\<lparr>hourly_metrics := hourly_metrics w @ rows\<rparr>
       \<and> hourly_rollup w1 ts = Inr (w\<lparr>hourly_metrics := hourly_metrics w @ rows @ rows\<rparr>)
       \<and> (\<forall>r \<in> set rows. row_timestamp r = hour_start_of ts)
       \<and> (\<forall>e \<in> set (raw_events w).
             hour_start_of ts \<le> event_timestamp e \<and> event_timestamp e < hour_start_of ts + 3600 \<longrightarrow>
             length (filter (\<lambda>r. row_video_id r = video_id e) rows) = 1)"
proof -
  let ?hs = "hour_start_of ts"
  let ?df = "hourly_query (raw_events w) ?hs (?hs + 3600)"
  let ?mk = "\<lambda>(v, t, m). agg_metrics.extend m \<lparr>row_video_id = v, row_timestamp = t\<rparr>"
  let ?rows = "map ?mk (process_aggregation_results ?df ?hs)"
  note d = hourly_rollup_InrD[OF assms]
  have again: "hourly_rollup w1 ts = Inr (w\<lparr>hourly_metrics := hourly_metrics w @ ?rows @ ?rows\<rparr>)"
    using d(1,2)
    by (simp add: d(3) hourly_rollup_def process_hourly_aggregation_def save_aggregations_def Let_def)
  have ids: "map row_video_id ?rows = map q_video_id ?df"
    using process_aggregation_results_keys(1)[OF hourly_query_distinct, of "raw_events w" ?hs "?hs + 3600" ?hs]
    by (simp add: comp_def case_prod_unfold hourly_row.defs agg_metrics.defs map_eq_conv[symmetric])
  have stamps: "\<forall>r \<in> set ?rows. row_timestamp r = ?hs"
    using process_aggregation_results_keys(2)[OF hourly_query_distinct, of "raw_events w" ?hs "?hs + 3600" ?hs]
    by (auto simp: hourly_row.defs agg_metrics.defs)
  have one: "length (filter (\<lambda>r. row_video_id r = video_id e) ?rows) = 1"
    if e: "e \<in> set (raw_events w)" "?hs \<le> event_timestamp e" "event_timestamp e < ?hs + 3600"
    for e
  proof -
    have "video_id e \<in> set (map q_video_id ?df)"
      unfolding hourly_query_videos using e by blast
    then have "video_id e \<in> set (map row_video_id ?rows)"
      by (simp only: ids)
    then have "video_id e \<in> row_video_id ` set ?rows"
      by (simp only: set_map)
    moreover have "distinct (map row_video_id ?rows)"
      unfolding ids by (rule hourly_query_distinct)
    ultimately show ?thesis by (rule count_one_of_distinct[rotated])
  qed
  show ?thesis
    using d(3) again stamps one by blast
qed


lemma sort_nonempty:
  assumes "xs \<noteq> []"
  shows "sort xs \<noteq> []"
proof
  assume "sort xs = []"
  then have "length (sort xs) = 0" by simp
  then have "length xs = 0" by (simp only: length_sort)
  with assms show False by simp
qed

lemma aggregate_metrics_keys:
  "map fst (aggregate_metrics df) = sort (remdups (map video_id df))"
  by (simp add: aggregate_metrics_def comp_def)

lemma process_batch_again:
  assumes "process_batch w ts = Inr (m, w1)"
  shows "\<exists>rows. w1 = w\<lparr>aggregated := aggregated w @ rows\<rparr>
       \<and> process_batch w1 ts = Inr (m, w\<lparr>aggregated := aggregated w @ rows @ rows\<rparr>)
       \<and> (\<forall>r \<in> set rows. br_timestamp r = ts)
       \<and> (\<forall>e \<in> set (raw_events w).
             ts - 3600 \<le> event_timestamp e \<and> event_timestamp e \<le> ts \<longrightarrow>
             length (filter (\<lambda>r. br_video_id r = video_id e) rows) = 1)"
proof -
  let ?P = "\<lambda>e. ts - 3600 \<le> event_timestamp e \<and> event_timestamp e \<le> ts"
  let ?df = "filter ?P (raw_events w)"
  let ?mk = "\<lambda>(v, video_metrics). \<lparr>br_video_id = v, br_timestamp = ts, br_metrics = video_metrics\<rparr>"
  let ?rows = "map ?mk (aggregate_metrics ?df)"
  from assms have up: "bq_up w"
    by (auto simp: process_batch_def Let_def split: if_splits)
  show ?thesis
  proof (cases "?df = []")
    case True
    with assms up have w1: "w1 = w" and m: "m = []"
      by (simp_all add: process_batch_def Let_def)
    have "process_batch w ts = Inr (m, w)" using assms w1 by simp
    moreover have "\<forall>e \<in> set (raw_events w). \<not> ?P e"
      using True by (simp add: filter_empty_conv)
    ultimately have "w1 = w\<lparr>aggregated := aggregated w @ []\<rparr>
       \<and> process_batch w1 ts = Inr (m, w\<lparr>aggregated := aggregated w @ [] @ []\<rparr>)
       \<and> (\<forall>r \<in> set []. br_timestamp r = ts)
       \<and> (\<forall>e \<in> set (raw_events w). ?P e \<longrightarrow>
             length (filter (\<lambda>r. br_video_id r = video_id e) []) = 1)"
      using w1 by simp
    then show ?thesis by blast
  next
    case False
    have "remdups (map video_id ?df) \<noteq> []"
      using False by simp
    then have ks: "sort (remdups (map video_id ?df)) \<noteq> []"
      by (rule sort_nonempty)
    then have ne: "aggregate_metrics ?df \<noteq> []"
      by (simp add: aggregate_metrics_def)
    from assms up False ne have w1: "w1 = w\<lparr>aggregated := aggregated w @ ?rows\<rparr>"
      and m: "m = aggregate_metrics ?df"
      by (auto simp: process_batch_def save_aggregated_metrics_def Let_def)
    have again: "process_batch w1 ts = Inr (m, w\<lparr>aggregated := aggregated w @ ?rows @ ?rows\<rparr>)"
      using up False ne
      by (simp add: w1 m process_batch_def save_aggregated_metrics_def Let_def)
    have ids: "map br_video_id ?rows = sort (remdups (map video_id ?df))"
      unfolding aggregate_metrics_keys[symmetric]
      by (simp add: comp_def case_prod_unfold)
    have stamps: "\<forall>r \<in> set ?rows. br_timestamp r = ts"
      by auto
    have one: "length (filter (\<lambda>r. br_video_id r = video_id e) ?rows) = 1"
      if e: "e \<in> set (raw_events w)" "?P e" for e
    proof -
      have "video_id e \<in> set (sort (remdups (map video_id ?df)))"
        using e by auto
      then have "video_id e \<in> set (map br_video_id ?rows)"
        by (simp only: ids)
      then have "video_id e \<in> br_video_id ` set ?rows"
        by (simp only: set_map)
      moreover have "distinct (map br_video_id ?rows)"
        unfolding ids by simp
      ultimately show ?thesis by (rule count_one_of_distinct[rotated])
    qed
    show ?thesis
      using w1 again stamps one by blast
  qed
qed

text \<open>
  C2 (amended). Each run of a batch job appends its rows to the aggregated table: it
  neither looks for nor replaces the rows of an earlier run. Running the hourly rollup, or
  \<open>process_batch\<close>, twice with the same timestamp over the same raw events therefore
  leaves the rows of the first run followed by the same rows again: two rows with
  identical field values for every video that has an event in the bucket, each run
  contributing exactly one.
\<close>

theorem rollup_rerun_appends:
  "(hourly_rollup w ts = Inr w1 \<longrightarrow>
      (\<exists>rows. w1 = w\<lparr>hourly_metrics := hourly_metrics w @ rows\<rparr>
         \<and> hourly_rollup w1 ts = Inr (w\<lparr>hourly_metrics := hourly_metrics w @ rows @ rows\<rparr>)
         \<and> (\<forall>r \<in> set rows. row_timestamp r = hour_start_of ts)
         \<and> (\<forall>e \<in> set (raw_events w).
               hour_start_of ts \<le> event_timestamp e \<and> event_timestamp e < hour_start_of ts + 3600 \<longrightarrow>
               length (filter (\<lambda>r. row_video_id r = video_id e) rows) = 1)))
   \<and> (process_batch w ts = Inr (m, w2) \<longrightarrow>
      (\<exists>rows. w2 = w\<lparr>aggregated := aggregated w @ rows\<rparr>
         \<and> process_batch w2 ts = Inr (m, w\<lparr>aggregated := aggregated w @ rows @ rows\<rparr>)
         \<and> (\<forall>r \<in> set rows. br_timestamp r = ts)
         \<and> (\<forall>e \<in> set (raw_events w).
               ts - 3600 \<le> event_timestamp e \<and> event_timestamp e \<le> ts \<longrightarrow>
               length (filter (\<lambda>r. br_video_id r = video_id e) rows) = 1)))"
  using hourly_rollup_again[of w ts w1] process_batch_again[of w ts m w2] by blast

lemmas rollup_eval =
  twice_def hourly_rollup_def process_hourly_aggregation_def save_aggregations_def
  process_aggregation_results_def hourly_query_def hourly_query_row_def hour_start_of_def
  process_batch_def save_aggregated_metrics_def aggregate_metrics_def aggregate_group_def
  count_distinct_def views_of_def likes_of_def value_counts_def warehouse_one_def event_v1_def
  Let_def hourly_row.defs agg_metrics.defs

theorem rollup_rerun_counterexample:
  "length (filter (\<lambda>r. row_video_id r = ''v1'' \<and> row_timestamp r = 0)
             (hourly_metrics (twice (\<lambda>w. hourly_rollup w 0) warehouse_one))) = 2
   \<and> length (filter (\<lambda>r. br_video_id r = ''v1'' \<and> br_timestamp r = 3600)
             (aggregated (twice (\<lambda>w. map_sum id snd (process_batch w 3600)) warehouse_one))) = 2"
  by (simp add: rollup_eval)



theorem rollup_rerun_appends_witness:
  "hourly_rollup warehouse_one 0 =
     Inr (warehouse_one\<lparr>hourly_metrics := [hourly_row_of ''v1'' 0 1 0 30]\<rparr>)
   \<and> hourly_rollup (warehouse_one\<lparr>hourly_metrics := [hourly_row_of ''v1'' 0 1 0 30]\<rparr>) 0 =
     Inr (warehouse_one\<lparr>hourly_metrics :=
            [hourly_row_of ''v1'' 0 1 0 30, hourly_row_of ''v1'' 0 1 0 30]\<rparr>)
   \<and> process_batch warehouse_one 3600 =
     Inr (aggregate_metrics [event_v1],
          warehouse_one\<lparr>aggregated :=
            [\<lparr>br_video_id = ''v1'', br_timestamp = 3600, br_metrics = aggregate_group [event_v1]\<rparr>]\<rparr>)
   \<and> process_batch
        (warehouse_one\<lparr>aggregated :=
            [\<lparr>br_video_id = ''v1'', br_timestamp = 3600, br_metrics = aggregate_group [event_v1]\<rparr>]\<rparr>)
        3600 =
     Inr (aggregate_metrics [event_v1],
          warehouse_one\<lparr>aggregated :=
            [\<lparr>br_video_id = ''v1'', br_timestamp = 3600, br_metrics = aggregate_group [event_v1]\<rparr>,
             \<lparr>br_video_id = ''v1'', br_timestamp = 3600, br_metrics = aggregate_group [event_v1]\<rparr>]\<rparr>)"
proof -
  let ?row = "hourly_row_of ''v1'' 0 1 0 30"
  let ?brow = "\<lparr>br_video_id = ''v1'', br_timestamp = 3600, br_metrics = aggregate_group [event_v1]\<rparr>"
  have h1: "hourly_rollup warehouse_one 0 = Inr (warehouse_one\<lparr>hourly_metrics := [?row]\<rparr>)"
    by (simp add: rollup_eval hourly_row_of_def)
  have b1: "process_batch warehouse_one 3600 =
     Inr (aggregate_metrics [event_v1], warehouse_one\<lparr>aggregated := [?brow]\<rparr>)"
    by (simp add: process_batch_def save_aggregated_metrics_def aggregate_metrics_def
        warehouse_one_def event_v1_def Let_def)
  from rollup_rerun_appends[of warehouse_one 0 "warehouse_one\<lparr>hourly_metrics := [?row]\<rparr>"
      "aggregate_metrics [event_v1]" "warehouse_one\<lparr>aggregated := [?brow]\<rparr>"] h1
  obtain rows where r: "warehouse_one\<lparr>hourly_metrics := [?row]\<rparr> =
        warehouse_one\<lparr>hourly_metrics := hourly_metrics warehouse_one @ rows\<rparr>"
    and h2: "hourly_rollup (warehouse_one\<lparr>hourly_metrics := [?row]\<rparr>) 0 =
        Inr (warehouse_one\<lparr>hourly_metrics := hourly_metrics warehouse_one @ rows @ rows\<rparr>)"
    by blast
  from r have "hourly_metrics (warehouse_one\<lparr>hourly_metrics := [?row]\<rparr>) =
      hourly_metrics (warehouse_one\<lparr>hourly_metrics := hourly_metrics warehouse_one @ rows\<rparr>)"
    by (rule arg_cong)
  then have rows: "rows = [?row]" by (simp add: warehouse_one_def)
  have h2': "hourly_rollup (warehouse_one\<lparr>hourly_metrics := [?row]\<rparr>) 0 =
     Inr (warehouse_one\<lparr>hourly_metrics := [?row, ?row]\<rparr>)"
    using h2 unfolding rows by (simp add: warehouse_one_def)
  from rollup_rerun_appends[of warehouse_one 3600 "warehouse_one"
      "aggregate_metrics [event_v1]" "warehouse_one\<lparr>aggregated := [?brow]\<rparr>"] b1
  obtain brows where r: "warehouse_one\<lparr>aggregated := [?brow]\<rparr> =
        warehouse_one\<lparr>aggregated := aggregated warehouse_one @ brows\<rparr>"
    and b2: "process_batch (warehouse_one\<lparr>aggregated := [?brow]\<rparr>) 3600 =
        Inr (aggregate_metrics [event_v1],
             warehouse_one\<lparr>aggregated := aggregated warehouse_one @ brows @ brows\<rparr>)"
    by blast
  from r have "aggregated (warehouse_one\<lparr>aggregated := [?brow]\<rparr>) =
      aggregated (warehouse_one\<lparr>aggregated := aggregated warehouse_one @ brows\<rparr>)"
    by (rule arg_cong)
  then have brows: "brows = [?brow]" by (simp add: warehouse_one_def)
  have b2': "process_batch (warehouse_one\<lparr>aggregated := [?brow]\<rparr>) 3600 =
     Inr (aggregate_metrics [event_v1], warehouse_one\<lparr>aggregated := [?brow, ?brow]\<rparr>)"
    using b2 unfolding brows by (simp add: warehouse_one_def)
  show ?thesis by (intro conjI h1 h2' b1 b2')
qed

section \<open>Historical metrics\<close>

lemma sum_list_const:
  fixes f :: "'a \<Rightarrow> 'b::semiring_1"
  assumes "\<forall>x \<in> set xs. f x = c"
  shows "sum_list (map f xs) = of_nat (length xs) * c"
  using assms by (induction xs) (auto simp: algebra_simps)

lemma sum_list_ratio:
  fixes g :: "'a \<Rightarrow> rat"
  assumes "\<forall>x \<in> set xs. g x = h x / c"
  shows "sum_list (map g xs) = sum_list (map h xs) / c"
  using assms by (induction xs) (auto simp: add_divide_distrib)

lemma of_int_sum_list: "(of_int (sum_list (map f xs)) :: rat) = sum_list (map (\<lambda>x. of_int (f x)) xs)"
  by (induction xs) auto

lemma avg_equal_weights:
  fixes n :: int
  assumes "rows \<noteq> []" and "0 < n"
    and "\<forall>x \<in> set rows. v x = n \<and> r x = t x / of_int n"
  shows "sql_avg (map r rows) = sum_list (map t rows) / of_int (sum_list (map v rows))"
proof -
  have len: "(of_nat (length rows) :: rat) \<noteq> 0" using assms(1) by simp
  have "sum_list (map v rows) = of_nat (length rows) * n"
    using assms(3) by (intro sum_list_const) auto
  then have vs: "(of_int (sum_list (map v rows)) :: rat) = of_nat (length rows) * of_int n"
    by simp
  have "sum_list (map r rows) = sum_list (map t rows) / of_int n"
    using assms(3) by (intro sum_list_ratio) auto
  then show ?thesis
    using len assms(2) by (simp add: sql_avg_def vs)
qed


lemma avg_equal_rates:
  assumes "rows \<noteq> []" and "\<forall>x \<in> set rows. r x = q"
  shows "sql_avg (map r rows) = q"
proof -
  have "(of_nat (length rows) :: rat) \<noteq> 0" using assms(1) by simp
  moreover have "sum_list (map r rows) = of_nat (length rows) * q"
    using assms(2) by (rule sum_list_const)
  ultimately show ?thesis by (simp add: sql_avg_def)
qed

text \<open>
  C3 (amended). For every time-range query that selects at least one aggregate bucket,
  the historical-metrics result holds the sums of the buckets' views, likes and watch
  time, and takes \<open>engagement_rate\<close> and \<open>avg_watch_time\<close> as the plain average of the
  buckets' own values (SQL \<open>AVG\<close>), not as a ratio of the summed totals. The average
  equals the ratio of the totals when all selected buckets have the same positive view
  count, and it equals the common value when all buckets have the same rate: the buckets
  \<open>{views: 10, likes: 2}\<close> and \<open>{views: 5, likes: 1}\<close> yield 0.2.
\<close>

theorem historical_metrics_average:
  assumes "bq_up w" and "historical_rows w v start end = rows" and "rows \<noteq> []"
  shows "\<exists>r. get_historical_metrics w v start end = Inr r
       \<and> vm_views (metrics r) = sum_list (map unique_views rows)
       \<and> vm_likes (metrics r) = sum_list (map likes rows)
       \<and> vm_watch_time (metrics r) = sum_list (map total_watch_time rows)
       \<and> vm_engagement_rate (metrics r) =
           sum_list (map engagement_rate rows) / of_nat (length rows)
       \<and> vm_avg_watch_time (metrics r) =
           sum_list (map avg_watch_time rows) / of_nat (length rows)
       \<and> ((\<exists>n. 0 < n \<and> (\<forall>x \<in> set rows. unique_views x = n
                  \<and> engagement_rate x = of_int (likes x) / of_int n
                  \<and> avg_watch_time x = total_watch_time x / of_int n)) \<longrightarrow>
             vm_engagement_rate (metrics r) =
               of_int (vm_likes (metrics r)) / of_int (vm_views (metrics r))
           \<and> vm_avg_watch_time (metrics r) =
               vm_watch_time (metrics r) / of_int (vm_views (metrics r)))
       \<and> (\<forall>q. (\<forall>x \<in> set rows. engagement_rate x = q) \<longrightarrow> vm_engagement_rate (metrics r) = q)"
proof -
  let ?m = "\<lparr>vm_video_id = v,
             vm_views = sum_list (map unique_views rows),
             vm_likes = sum_list (map likes rows),
             vm_watch_time = sum_list (map total_watch_time rows),
             vm_unique_users = sum_list (map unique_users rows),
             vm_countries_reached = sql_max (map countries_reached rows),
             vm_engagement_rate = sql_avg (map engagement_rate rows),
             vm_avg_watch_time = sql_avg (map avg_watch_time rows)\<rparr>"
  let ?r = "\<lparr>start_time = start, end_time = end, metrics = ?m\<rparr>"
  have g: "get_historical_metrics w v start end = Inr ?r"
    using assms
    by (simp add: get_historical_metrics_def get_historical_metrics_try_def Let_def)
  have weights: "sql_avg (map engagement_rate rows) =
        of_int (sum_list (map likes rows)) / of_int (sum_list (map unique_views rows))
      \<and> sql_avg (map avg_watch_time rows) =
        sum_list (map total_watch_time rows) / of_int (sum_list (map unique_views rows))"
    if n: "0 < n" "\<forall>x \<in> set rows. unique_views x = n
                  \<and> engagement_rate x = of_int (likes x) / of_int n
                  \<and> avg_watch_time x = total_watch_time x / of_int n" for n
  proof -
    have "sql_avg (map engagement_rate rows) =
        sum_list (map (\<lambda>x. of_int (likes x)) rows) / of_int (sum_list (map unique_views rows))"
      using n by (intro avg_equal_weights[OF assms(3) n(1)]) auto
    moreover have "sql_avg (map avg_watch_time rows) =
        sum_list (map total_watch_time rows) / of_int (sum_list (map unique_views rows))"
      using n by (intro avg_equal_weights[OF assms(3) n(1)]) auto
    ultimately show ?thesis by (simp add: of_int_sum_list)
  qed
  have rates: "sql_avg (map engagement_rate rows) = q"
    if "\<forall>x \<in> set rows. engagement_rate x = q" for q
    using that by (rule avg_equal_rates[OF assms(3)])
  have "vm_views (metrics ?r) = sum_list (map unique_views rows)
       \<and> vm_likes (metrics ?r) = sum_list (map likes rows)
       \<and> vm_watch_time (metrics ?r) = sum_list (map total_watch_time rows)
       \<and> vm_engagement_rate (metrics ?r) =
           sum_list (map engagement_rate rows) / of_nat (length rows)
       \<and> vm_avg_watch_time (metrics ?r) =
           sum_list (map avg_watch_time rows) / of_nat (length rows)
       \<and> ((\<exists>n. 0 < n \<and> (\<forall>x \<in> set rows. unique_views x = n
                  \<and> engagement_rate x = of_int (likes x) / of_int n
                  \<and> avg_watch_time x = total_watch_time x / of_int n)) \<longrightarrow>
             vm_engagement_rate (metrics ?r) =
               of_int (vm_likes (metrics ?r)) / of_int (vm_views (metrics ?r))
           \<and> vm_avg_watch_time (metrics ?r) =
               vm_watch_time (metrics ?r) / of_int (vm_views (metrics ?r)))
       \<and> (\<forall>q. (\<forall>x \<in> set rows. engagement_rate x = q) \<longrightarrow> vm_engagement_rate (metrics ?r) = q)"
    using weights rates by (auto simp: sql_avg_def)
  with g show ?thesis by blast
qed

lemmas historical_eval =
  get_historical_metrics_def get_historical_metrics_try_def historical_rows_def sql_avg_def
  hourly_row_of_def Let_def

theorem historical_metrics_average_witness:
  "bq_up warehouse_example
   \<and> historical_rows warehouse_example ''v1'' 0 7200 =
       [hourly_row_of ''v1'' 0 10 2 100, hourly_row_of ''v1'' 3600 5 1 50]
   \<and> get_historical_metrics warehouse_example ''v1'' 0 7200 =
       Inr \<lparr>start_time = 0, end_time = 7200,
            metrics = \<lparr>vm_video_id = ''v1'', vm_views = 15, vm_likes = 3, vm_watch_time = 150,
                       vm_unique_users = 15, vm_countries_reached = 1,
                       vm_engagement_rate = 1 / 5, vm_avg_watch_time = 10\<rparr>\<rparr>"
proof -
  have u: "bq_up warehouse_example" by (simp add: warehouse_example_def)
  have h: "historical_rows warehouse_example ''v1'' 0 7200 =
       [hourly_row_of ''v1'' 0 10 2 100, hourly_row_of ''v1'' 3600 5 1 50]"
    by (simp add: warehouse_example_def historical_eval)
  have n: "[hourly_row_of ''v1'' 0 10 2 100, hourly_row_of ''v1'' 3600 5 1 50] \<noteq> []" by simp
  have g: "get_historical_metrics warehouse_example ''v1'' 0 7200 =
       Inr \<lparr>start_time = 0, end_time = 7200,
            metrics = \<lparr>vm_video_id = ''v1'', vm_views = 15, vm_likes = 3, vm_watch_time = 150,
                       vm_unique_users = 15, vm_countries_reached = 1,
                       vm_engagement_rate = 1 / 5, vm_avg_watch_time = 10\<rparr>\<rparr>"
    by (simp add: warehouse_example_def historical_eval)
  from historical_metrics_average[OF u h n] u h g show ?thesis by simp
qed

theorem historical_metrics_counterexample:
  "get_historical_metrics warehouse_skewed ''v1'' 0 7200 =
       Inr \<lparr>start_time = 0, end_time = 7200,
            metrics = \<lparr>vm_video_id = ''v1'', vm_views = 11, vm_likes = 5, vm_watch_time = 101,
                       vm_unique_users = 11, vm_countries_reached = 1,
                       vm_engagement_rate = 1 / 4, vm_avg_watch_time = 11 / 2\<rparr>\<rparr>
   \<and> (5::rat) / 11 \<noteq> 1 / 4 \<and> (101::rat) / 11 \<noteq> 11 / 2"
  by (simp add: warehouse_skewed_def historical_eval)

section \<open>Derived rates of the batch jobs\<close>

lemma set_update_subset: "set (AList.update k v al) \<subseteq> insert (k, v) (set al)"
  by (induction al) auto

lemma hourly_rates:
  assumes "(v, t, m) \<in> set (process_aggregation_results df ts)"
  shows "engagement_rate m =
           (if unique_views m > 0 then of_int (likes m) / of_int (unique_views m) else 0)
       \<and> avg_watch_time m =
           (if unique_views m > 0 then total_watch_time m / of_int (unique_views m) else 0)"
proof -
  let ?ok = "\<lambda>(v, t, m). engagement_rate m =
           (if unique_views m > 0 then of_int (likes m) / of_int (unique_views m) else 0)
       \<and> avg_watch_time m =
           (if unique_views m > 0 then total_watch_time m / of_int (unique_views m) else (0::rat))"
  let ?step = "\<lambda>row metrics.
             AList.update (q_video_id row)
               (ts,
                \<lparr>unique_views = q_unique_views row,
                 likes = q_likes row,
                 total_watch_time = q_total_watch_time row,
                 unique_users = q_unique_users row,
                 countries_reached = q_countries_reached row,
                 engagement_rate =
                   (if q_unique_views row > 0
                    then of_int (q_likes row) / of_int (q_unique_views row) else 0),
                 avg_watch_time =
                   (if q_unique_views row > 0
                    then q_total_watch_time row / of_int (q_unique_views row) else 0)\<rparr>)
               metrics"
  have inv: "\<forall>x \<in> set acc. ?ok x \<Longrightarrow> \<forall>x \<in> set (fold ?step df acc). ?ok x" for acc
  proof (induction df arbitrary: acc)
    case Nil
    then show ?case by simp
  next
    case (Cons row df)
    have "\<forall>x \<in> set (?step row acc). ?ok x"
      using Cons.prems set_update_subset[of "q_video_id row" _ acc] by fastforce
    from Cons.IH[OF this] show ?case by simp
  qed
  have "\<forall>x \<in> set (process_aggregation_results df ts). ?ok x"
    unfolding process_aggregation_results_def by (rule inv) simp
  with assms show ?thesis by fastforce
qed


lemma aggregate_group_keys:
  "map fst (aggregate_group g) =
     [''unique_views'', ''likes'', ''total_watch_time'', ''unique_users'', ''countries_reached'',
      ''device_breakdown'', ''quality_breakdown'', ''engagement_rate'']"
  by (simp add: aggregate_group_def Let_def)

lemma aggregate_group_engagement_rate:
  "map_of (aggregate_group g) ''engagement_rate'' =
     Some (if count_distinct (map user_id (views_of g)) > 0
           then PFloat (of_int (int (length (likes_of g))) /
                        of_int (count_distinct (map user_id (views_of g))))
           else PInt 0)"
  by (simp add: aggregate_group_def Let_def)

text \<open>
  C4. The hourly rollup derives both rates as the claim states (\<open>hourly_rates\<close>). The
  dictionary that \<open>_aggregate_metrics\<close> builds has an \<open>engagement_rate\<close> but no
  \<open>avg_watch_time\<close> at all: for one view event of 30 seconds it holds a total watch time
  of 30 on one view, and nothing under \<open>avg_watch_time\<close>.
\<close>

theorem aggregate_metrics_lacks_avg_watch_time:
  "aggregate_metrics [event_v1] =
     [(''v1'', [(''unique_views'', PInt 1), (''likes'', PInt 0),
               (''total_watch_time'', PFloat 30), (''unique_users'', PInt 1),
               (''countries_reached'', PInt 1),
               (''device_breakdown'', PDict [(''tv'', 1)]),
               (''quality_breakdown'', PDict [(''hd'', 1)]),
               (''engagement_rate'', PFloat 0)])]
   \<and> map_of (aggregate_group [event_v1]) ''avg_watch_time'' = None"
  by (simp add: aggregate_metrics_def aggregate_group_def count_distinct_def views_of_def
      likes_of_def value_counts_def event_v1_def Let_def)


end
